theory Spec2Isabelle
  imports Main "HOL-Library.Word"
begin

section \<open>Data model of offset_manager.go\<close>

text \<open>
  Pointers are addresses into two object heaps: a \<open>*partitionOffsetManager\<close> is an index
  into \<open>heap_poms\<close>, a \<open>*brokerOffsetManager\<close> an index into \<open>heap_boms\<close>; a nil pointer is
  \<open>None\<close>. A \<open>*Broker\<close> is an opaque identity (the key of \<open>om.boms\<close>).
\<close>

type_synonym addr = nat
type_synonym Broker = nat

text \<open>
  Modelled from the spec: the type \<open>KError\<close> and its constants are declared outside
  offset_manager.go. The four codes the file names are constructors; \<open>ErrOther c\<close> stands
  for any other broker error code.
\<close>

datatype KError =
    ErrNoError
  | ErrUnknownTopicOrPartition
  | ErrNotLeaderForPartition
  | ErrLeaderNotAvailable
  | ErrOther int

text \<open>
  Go's \<open>error\<close> values that reach this file: the package errors it names, a \<open>KError\<close> used
  as an error, and \<open>ErrExternal\<close> for whatever error a collaborator (client, broker
  connection) returns.
\<close>

datatype error =
    ErrClosedClient
  | ErrIncompleteResponse
  | ConfigurationError string
  | KErr KError
  | ErrExternal string

record Config =
  ChannelBufferSize :: nat
  Consumer_Return_Errors :: bool

subsection \<open>Channels\<close>

text \<open>
  A buffered channel \<open>make(chan T, n)\<close>: the buffered elements and the capacity. A send on
  a full channel does not complete by itself: \<open>chan_send\<close> answers \<open>None\<close> there, and the
  sending function then has the outcome \<open>Blocked\<close>.
\<close>

record 'a chan =
  buf :: "'a list"
  cap :: nat

definition make_chan :: "nat \<Rightarrow> 'a chan" where
  "make_chan n = \<lparr>buf = [], cap = n\<rparr>"

definition chan_send :: "'a \<Rightarrow> 'a chan \<Rightarrow> 'a chan option" where
  "chan_send x c = (if length (buf c) < cap c then Some (c\<lparr>buf := buf c @ [x]\<rparr>) else None)"

definition chan_recv :: "'a chan \<Rightarrow> ('a \<times> 'a chan) option" where
  "chan_recv c = (case buf c of [] \<Rightarrow> None | x # xs \<Rightarrow> Some (x, c\<lparr>buf := xs\<rparr>))"

subsection \<open>Wire messages\<close>

text \<open>
  Modelled from the spec: \<open>OffsetFetchRequest\<close>, \<open>OffsetFetchResponse\<close>,
  \<open>OffsetCommitRequest\<close> and their methods \<open>AddPartition\<close>, \<open>GetBlock\<close>, \<open>AddBlock\<close> are
  declared outside offset_manager.go. A fetch response holds one block per
  (topic, partition) and \<open>GetBlock\<close> looks it up (nil when absent). A commit request
  holds one block (offset, timestamp, metadata) per (topic, partition), none at first;
  \<open>AddBlock\<close> stores the block under its pair and replaces a block stored there
  before. The field \<open>OffsetCommitResponse.Errors\<close> is a map of maps, as flushToBroker
  indexes it.
\<close>

record OffsetFetchRequest =
  Version :: int
  ConsumerGroup :: string
  fetch_partitions :: "(string \<times> 32 word) list"

record OffsetFetchResponseBlock =
  block_Offset :: "64 word"
  block_Metadata :: string
  block_Err :: KError

type_synonym OffsetFetchResponse = "string \<times> 32 word \<Rightarrow> OffsetFetchResponseBlock option"

definition GetBlock :: "OffsetFetchResponse \<Rightarrow> string \<Rightarrow> 32 word \<Rightarrow> OffsetFetchResponseBlock option" where
  "GetBlock response topic partn = response (topic, partn)"

definition AddPartition :: "string \<Rightarrow> 32 word \<Rightarrow> OffsetFetchRequest \<Rightarrow> OffsetFetchRequest" where
  "AddPartition topic partn r = r\<lparr>fetch_partitions := fetch_partitions r @ [(topic, partn)]\<rparr>"

record offsetCommitRequestBlock =
  commit_offset :: "64 word"
  commit_timestamp :: "64 word"
  commit_metadata :: string

type_synonym OffsetCommitRequest = "string \<times> 32 word \<Rightarrow> offsetCommitRequestBlock option"

definition AddBlock ::
  "string \<Rightarrow> 32 word \<Rightarrow> 64 word \<Rightarrow> 64 word \<Rightarrow> string \<Rightarrow> OffsetCommitRequest \<Rightarrow> OffsetCommitRequest" where
  "AddBlock topic partn offset timestamp metadata r =
     r((topic, partn) \<mapsto>
         \<lparr>commit_offset = offset, commit_timestamp = timestamp, commit_metadata = metadata\<rparr>)"

record OffsetCommitResponse =
  response_Errors :: "string \<Rightarrow> (32 word \<Rightarrow> KError option) option"

subsection \<open>The collaborators\<close>

text \<open>
  The Client and the broker connections are external: their answers are inputs. The
  record gives the answer each capability returns when it is next called. Go's
  \<open>(value, err)\<close> pairs are kept as pairs for the two broker requests, whose callers read
  both components; \<open>Coordinator\<close> answers an error or a non-nil broker.
\<close>

record Client =
  Closed :: bool
  client_Config :: Config
  RefreshCoordinator :: "string \<Rightarrow> error option"
  Coordinator :: "string \<Rightarrow> error + Broker"
  FetchOffset :: "Broker \<Rightarrow> OffsetFetchRequest \<Rightarrow> OffsetFetchResponse option \<times> error option"
  CommitOffset :: "Broker \<Rightarrow> OffsetCommitRequest \<Rightarrow> OffsetCommitResponse option \<times> error option"

subsection \<open>The managers\<close>

record partitionOffsetManager =
  pom_topic :: string
  pom_partition :: "32 word"
  pom_offset :: "64 word"
  pom_metadata :: string
  pom_broker :: "addr option"
  pom_errors :: "error chan"
  pom_rebalance :: "unit chan"

text \<open>
  \<open>newSubscriptions\<close> is unbuffered: a sender waits until the broker manager's task
  receives. \<open>bom_newSubscriptions\<close> lists the partition managers waiting in such a send,
  oldest first; \<open>bom_closed\<close> says whether the channel was closed. \<open>bom_subscriptions\<close>
  lists the keys of the \<open>subscriptions\<close> map without repetition; its order is one of
  the orders in which Go may range over the map. \<open>refs\<close> is a Go \<open>int\<close>; it counts live
  objects, so it is far from the bounds of the type and is an unbounded integer here.
\<close>

record brokerOffsetManager =
  bom_broker :: Broker
  bom_timer :: bool
  bom_newSubscriptions :: "addr list"
  bom_closed :: bool
  bom_subscriptions :: "addr list"
  bom_refs :: int

text \<open>
  The state: the fields of the one \<open>offsetManager\<close> (every manager's \<open>parent\<close>), the two
  object heaps, the set of broker connections on which \<open>Close\<close> was called, and what went
  to \<open>Logger\<close>. The mutexes are not fields: every function below runs atomically.
\<close>

record state =
  om_client :: Client
  om_conf :: Config
  om_group :: string
  om_poms :: "string \<Rightarrow> (32 word \<Rightarrow> addr option) option"
  om_boms :: "Broker \<Rightarrow> addr option"
  heap_poms :: "partitionOffsetManager list"
  heap_boms :: "brokerOffsetManager list"
  closed_brokers :: "Broker set"
  logged :: "error list"

definition the_pom :: "state \<Rightarrow> addr \<Rightarrow> partitionOffsetManager" where
  "the_pom st p = heap_poms st ! p"

definition the_bom :: "state \<Rightarrow> addr \<Rightarrow> brokerOffsetManager" where
  "the_bom st b = heap_boms st ! b"

definition upd_pom :: "addr \<Rightarrow> (partitionOffsetManager \<Rightarrow> partitionOffsetManager) \<Rightarrow> state \<Rightarrow> state" where
  "upd_pom p f st = st\<lparr>heap_poms := (heap_poms st)[p := f (heap_poms st ! p)]\<rparr>"

definition upd_bom :: "addr \<Rightarrow> (brokerOffsetManager \<Rightarrow> brokerOffsetManager) \<Rightarrow> state \<Rightarrow> state" where
  "upd_bom b f st = st\<lparr>heap_boms := (heap_boms st)[b := f (heap_boms st ! b)]\<rparr>"

subsection \<open>Outcomes\<close>

text \<open>
  A function of the source either returns (\<open>Done\<close>), stops in a channel operation that
  no other task completes for it (\<open>Blocked\<close>, with the state reached), or panics
  (\<open>Panicked\<close>, with Go's message and the state reached).
\<close>

datatype 'r outcome = Done 'r | Blocked state | Panicked string state

fun obind :: "'a outcome \<Rightarrow> ('a \<Rightarrow> 'b outcome) \<Rightarrow> 'b outcome" where
  "obind (Done x) f = f x"
| "obind (Blocked s) f = Blocked s"
| "obind (Panicked m s) f = Panicked m s"

section \<open>The registry\<close>

definition NewOffsetManagerFromClient :: "Client \<Rightarrow> error + state" where
  "NewOffsetManagerFromClient c =
     (if Closed c then Inl ErrClosedClient
      else Inr \<lparr>om_client = c, om_conf = client_Config c, om_group = [],
                om_poms = Map.empty, om_boms = Map.empty,
                heap_poms = [], heap_boms = [], closed_brokers = {}, logged = []\<rparr>)"

text \<open>
  newBrokerOffsetManager allocates the manager (its address is the next free one) with
  a running ticker, an open attach channel, no subscription and \<open>refs = 0\<close>, and starts
  its mainLoop task, whose iterations are \<open>bom_mainLoop\<close> below.
\<close>

definition newBrokerOffsetManager :: "Broker \<Rightarrow> state \<Rightarrow> state \<times> addr" where
  "newBrokerOffsetManager broker st =
     (st\<lparr>heap_boms := heap_boms st @
           [\<lparr>bom_broker = broker, bom_timer = True, bom_newSubscriptions = [],
             bom_closed = False, bom_subscriptions = [], bom_refs = 0\<rparr>]\<rparr>,
      length (heap_boms st))"

definition refBrokerOffsetManager :: "Broker \<Rightarrow> state \<Rightarrow> state \<times> addr" where
  "refBrokerOffsetManager broker st =
     (let (st1, bom) =
        (case om_boms st broker of
           None \<Rightarrow>
             (let (st', bom) = newBrokerOffsetManager broker st
              in (st'\<lparr>om_boms := (om_boms st')(broker \<mapsto> bom)\<rparr>, bom))
         | Some bom \<Rightarrow> (st, bom))
      in (upd_bom bom (\<lambda>m. m\<lparr>bom_refs := bom_refs m + 1\<rparr>) st1, bom))"

text \<open>Closing a channel that is already closed panics in Go.\<close>

definition unrefBrokerOffsetManager :: "addr \<Rightarrow> state \<Rightarrow> state outcome" where
  "unrefBrokerOffsetManager bom st =
     (let st1 = upd_bom bom (\<lambda>m. m\<lparr>bom_refs := bom_refs m - 1\<rparr>) st
      in if bom_refs (the_bom st1 bom) = 0
         then (if bom_closed (the_bom st1 bom)
               then Panicked ''close of closed channel'' st1
               else (let st2 = upd_bom bom (\<lambda>m. m\<lparr>bom_closed := True\<rparr>) st1
                     in Done (if om_boms st2 (bom_broker (the_bom st2 bom)) = Some bom
                              then st2\<lparr>om_boms := (om_boms st2)(bom_broker (the_bom st2 bom) := None)\<rparr>
                              else st2)))
         else Done st1)"

definition abandonBroker :: "addr \<Rightarrow> state \<Rightarrow> state" where
  "abandonBroker bom st = st\<lparr>om_boms := (om_boms st)(bom_broker (the_bom st bom) := None)\<rparr>"

section \<open>The partition offset manager\<close>

definition handleError :: "addr \<Rightarrow> error \<Rightarrow> state \<Rightarrow> state outcome" where
  "handleError pom err st =
     (if Consumer_Return_Errors (om_conf st)
      then (case chan_send err (pom_errors (the_pom st pom)) of
              None \<Rightarrow> Blocked st
            | Some c \<Rightarrow> Done (upd_pom pom (\<lambda>m. m\<lparr>pom_errors := c\<rparr>) st))
      else Done (st\<lparr>logged := logged st @ [err]\<rparr>))"

text \<open>The statement \<open>pom.rebalance <- none{}\<close>, on the channel of capacity 1.\<close>

definition send_rebalance :: "addr \<Rightarrow> state \<Rightarrow> state outcome" where
  "send_rebalance pom st =
     (case chan_send () (pom_rebalance (the_pom st pom)) of
        None \<Rightarrow> Blocked st
      | Some c \<Rightarrow> Done (upd_pom pom (\<lambda>m. m\<lparr>pom_rebalance := c\<rparr>) st))"

text \<open>
  The statement \<open>bom.newSubscriptions <- pom\<close>: a send on a closed channel panics;
  otherwise the sender waits in the channel until the broker manager's task receives
  it (in \<open>bom_mainLoop\<close> or in the second loop of \<open>abort\<close>), and then goes on. The
  definition lists the sender as waiting and gives the state in which it goes on; the
  receive is a step of the broker manager's task. So \<open>Done\<close> from a function that sends
  here tells how the call ends once its send has been received, not that the receive
  takes place.
\<close>

definition send_newSubscriptions :: "addr \<Rightarrow> addr \<Rightarrow> state \<Rightarrow> state outcome" where
  "send_newSubscriptions bom pom st =
     (if bom_closed (the_bom st bom) then Panicked ''send on closed channel'' st
      else Done (upd_bom bom (\<lambda>m. m\<lparr>bom_newSubscriptions := bom_newSubscriptions m @ [pom]\<rparr>) st))"

text \<open>
  selectBroker, in the order of its body: the release of the broker manager held so
  far (\<open>selectBroker_release\<close>), the two calls of the client, and the attachment to
  the coordinator's broker manager (\<open>selectBroker_attach\<close>).
\<close>

definition selectBroker_release :: "addr \<Rightarrow> state \<Rightarrow> state outcome" where
  "selectBroker_release pom st =
     (case pom_broker (the_pom st pom) of
        None \<Rightarrow> Done st
      | Some bom \<Rightarrow>
          obind (unrefBrokerOffsetManager bom st)
            (\<lambda>st'. Done (upd_pom pom (\<lambda>m. m\<lparr>pom_broker := None\<rparr>) st')))"

definition selectBroker_attach :: "addr \<Rightarrow> Broker \<Rightarrow> state \<Rightarrow> (state \<times> error option) outcome" where
  "selectBroker_attach pom broker st =
     (let (st2, bom) = refBrokerOffsetManager broker st;
          st3 = upd_pom pom (\<lambda>m. m\<lparr>pom_broker := Some bom\<rparr>) st2
      in obind (send_newSubscriptions bom pom st3) (\<lambda>st4. Done (st4, None)))"

definition selectBroker :: "addr \<Rightarrow> state \<Rightarrow> (state \<times> error option) outcome" where
  "selectBroker pom st =
     obind (selectBroker_release pom st)
       (\<lambda>st1.
          case RefreshCoordinator (om_client st1) (om_group st1) of
            Some err \<Rightarrow> Done (st1, Some err)
          | None \<Rightarrow>
              (case Coordinator (om_client st1) (om_group st1) of
                 Inl err \<Rightarrow> Done (st1, Some err)
               | Inr broker \<Rightarrow> selectBroker_attach pom broker st1))"

text \<open>
  fetchInitialOffset. \<open>err\<close> is the second component of FetchOffset's answer, as in the
  source; the default branch of the switch returns that variable. Reading
  \<open>pom.broker.broker\<close> through a nil \<open>pom.broker\<close>, or calling \<open>GetBlock\<close> on a nil
  response, is a nil dereference.
\<close>

definition fetchInitialOffset :: "addr \<Rightarrow> state \<Rightarrow> (state \<times> error option) outcome" where
  "fetchInitialOffset pom st =
     (let request = AddPartition (pom_topic (the_pom st pom)) (pom_partition (the_pom st pom))
                      \<lparr>Version = 1, ConsumerGroup = om_group st, fetch_partitions = []\<rparr>
      in case pom_broker (the_pom st pom) of
           None \<Rightarrow> Panicked ''nil pointer dereference'' st
         | Some bom \<Rightarrow>
             (let (response, err) = FetchOffset (om_client st) (bom_broker (the_bom st bom)) request
              in if err \<noteq> None then Done (st, err)
                 else (case response of
                         None \<Rightarrow> Panicked ''nil pointer dereference'' st
                       | Some r \<Rightarrow>
                           (case GetBlock r (pom_topic (the_pom st pom)) (pom_partition (the_pom st pom)) of
                              None \<Rightarrow> Done (st, Some ErrIncompleteResponse)
                            | Some block \<Rightarrow>
                                (case block_Err block of
                                   ErrNoError \<Rightarrow>
                                     Done (upd_pom pom (\<lambda>m. m\<lparr>pom_offset := block_Offset block,
                                                               pom_metadata := block_Metadata block\<rparr>) st,
                                           None)
                                 | _ \<Rightarrow> Done (st, err))))))"

text \<open>
  newPartitionOffsetManager allocates the manager at the next free address; on success
  it starts the manager's mainLoop task, whose iterations are \<open>pom_mainLoop\<close> below.
\<close>

definition newPartitionOffsetManager ::
  "string \<Rightarrow> 32 word \<Rightarrow> state \<Rightarrow> (state \<times> (error + addr)) outcome" where
  "newPartitionOffsetManager topic partn st =
     (let pom = length (heap_poms st);
          st0 = st\<lparr>heap_poms := heap_poms st @
                  [\<lparr>pom_topic = topic, pom_partition = partn, pom_offset = 0, pom_metadata = [],
                    pom_broker = None,
                    pom_errors = make_chan (ChannelBufferSize (om_conf st)),
                    pom_rebalance = make_chan 1\<rparr>]\<rparr>
      in obind (selectBroker pom st0)
           (\<lambda>(st1, err). case err of
              Some e \<Rightarrow> Done (st1, Inl e)
            | None \<Rightarrow>
                obind (fetchInitialOffset pom st1)
                  (\<lambda>(st2, err). case err of
                     Some e \<Rightarrow> Done (st2, Inl e)
                   | None \<Rightarrow> Done (st2, Inr pom))))"

text \<open>
  ManagePartition: the construction of the manager, then the section under the
  registry's lock (\<open>ManagePartition_register\<close>).
\<close>

definition ManagePartition_register ::
  "string \<Rightarrow> 32 word \<Rightarrow> addr \<Rightarrow> state \<Rightarrow> state \<times> (error + addr)" where
  "ManagePartition_register topic partn pom st1 =
     (let (topicManagers, st2) =
        (case om_poms st1 topic of
           None \<Rightarrow> (Map.empty, st1\<lparr>om_poms := (om_poms st1)(topic \<mapsto> Map.empty)\<rparr>)
         | Some tm \<Rightarrow> (tm, st1))
      in if topicManagers partn \<noteq> None
         then (st2, Inl (ConfigurationError ''That topic/partition is already being managed''))
         else (st2\<lparr>om_poms := (om_poms st2)(topic \<mapsto> topicManagers(partn \<mapsto> pom))\<rparr>, Inr pom))"

definition ManagePartition ::
  "string \<Rightarrow> 32 word \<Rightarrow> state \<Rightarrow> (state \<times> (error + addr)) outcome" where
  "ManagePartition topic partn st =
     obind (newPartitionOffsetManager topic partn st)
       (\<lambda>(st1, r). case r of
          Inl err \<Rightarrow> Done (st1, Inl err)
        | Inr pom \<Rightarrow> Done (ManagePartition_register topic partn pom st1))"

text \<open>
  One iteration of the partition manager's mainLoop: receive from \<open>rebalance\<close> (waiting
  when it is empty), then the loop body.
\<close>

definition pom_mainLoop :: "addr \<Rightarrow> state \<Rightarrow> state outcome" where
  "pom_mainLoop pom st =
     (case chan_recv (pom_rebalance (the_pom st pom)) of
        None \<Rightarrow> Blocked st
      | Some (u, c) \<Rightarrow>
          obind (selectBroker pom (upd_pom pom (\<lambda>m. m\<lparr>pom_rebalance := c\<rparr>) st))
            (\<lambda>(st1, err). case err of
               None \<Rightarrow> Done st1
             | Some e \<Rightarrow> obind (handleError pom e st1) (send_rebalance pom)))"

definition SetOffset :: "addr \<Rightarrow> 64 word \<Rightarrow> state \<Rightarrow> state" where
  "SetOffset pom offset st = upd_pom pom (\<lambda>m. m\<lparr>pom_offset := offset\<rparr>) st"

definition SetMetadata :: "addr \<Rightarrow> string \<Rightarrow> state \<Rightarrow> state" where
  "SetMetadata pom metadata st = upd_pom pom (\<lambda>m. m\<lparr>pom_metadata := metadata\<rparr>) st"

definition Offset :: "addr \<Rightarrow> state \<Rightarrow> 64 word" where
  "Offset pom st = pom_offset (the_pom st pom)"

definition Metadata :: "addr \<Rightarrow> state \<Rightarrow> string" where
  "Metadata pom st = pom_metadata (the_pom st pom)"

definition Errors :: "addr \<Rightarrow> state \<Rightarrow> error chan" where
  "Errors pom st = pom_errors (the_pom st pom)"

text \<open>AsyncClose has an empty body; Close calls it and returns nil.\<close>

definition AsyncClose :: "addr \<Rightarrow> state \<Rightarrow> state" where
  "AsyncClose pom st = st"

definition Close :: "addr \<Rightarrow> state \<Rightarrow> state \<times> error option" where
  "Close pom st = (AsyncClose pom st, None)"

section \<open>The broker offset manager\<close>

fun constructRequest_loop :: "state \<Rightarrow> addr list \<Rightarrow> OffsetCommitRequest \<Rightarrow> OffsetCommitRequest" where
  "constructRequest_loop st [] r = r"
| "constructRequest_loop st (s # ss) r =
     constructRequest_loop st ss
       (AddBlock (pom_topic (the_pom st s)) (pom_partition (the_pom st s))
          (pom_offset (the_pom st s)) 0 (pom_metadata (the_pom st s)) r)"

definition constructRequest :: "addr \<Rightarrow> state \<Rightarrow> OffsetCommitRequest" where
  "constructRequest bom st = constructRequest_loop st (bom_subscriptions (the_bom st bom)) Map.empty"

definition delete_subscription :: "addr \<Rightarrow> addr \<Rightarrow> state \<Rightarrow> state" where
  "delete_subscription bom s st =
     upd_bom bom (\<lambda>m. m\<lparr>bom_subscriptions := removeAll s (bom_subscriptions m)\<rparr>) st"

text \<open>The first loop of abort, over the subscriptions (which it leaves in the map).\<close>

fun abort_subscriptions :: "error \<Rightarrow> addr list \<Rightarrow> state \<Rightarrow> state outcome" where
  "abort_subscriptions err [] st = Done st"
| "abort_subscriptions err (pom # poms) st =
     obind (handleError pom err st)
       (\<lambda>st1. obind (send_rebalance pom st1) (abort_subscriptions err poms))"

text \<open>
  The second loop of abort, \<open>for s := range bom.newSubscriptions\<close>: it receives each
  waiting sender in turn; when none is waiting it ends if the channel is closed and
  waits otherwise. The list argument is the queue of waiting senders.
\<close>

fun abort_newSubscriptions :: "addr \<Rightarrow> error \<Rightarrow> addr list \<Rightarrow> state \<Rightarrow> state outcome" where
  "abort_newSubscriptions bom err [] st =
     (if bom_closed (the_bom st bom) then Done st else Blocked st)"
| "abort_newSubscriptions bom err (s # ss) st =
     obind (handleError s err (upd_bom bom (\<lambda>m. m\<lparr>bom_newSubscriptions := ss\<rparr>) st))
       (\<lambda>st1. obind (send_rebalance s st1) (abort_newSubscriptions bom err ss))"

definition abort :: "addr \<Rightarrow> error \<Rightarrow> state \<Rightarrow> state outcome" where
  "abort bom err st =
     (let st1 = abandonBroker bom st;
          st2 = st1\<lparr>closed_brokers := insert (bom_broker (the_bom st1 bom)) (closed_brokers st1)\<rparr>
      in obind (abort_subscriptions err (bom_subscriptions (the_bom st2 bom)) st2)
           (\<lambda>st3. abort_newSubscriptions bom err (bom_newSubscriptions (the_bom st3 bom)) st3))"

text \<open>
  The body of the loop of flushToBroker for one subscription \<open>s\<close>. \<open>response\<close> is the
  pointer CommitOffset returned: reading \<open>response.Errors\<close> through nil panics.
\<close>

definition flush_subscription :: "addr \<Rightarrow> OffsetCommitResponse option \<Rightarrow> addr \<Rightarrow> state \<Rightarrow> state outcome" where
  "flush_subscription bom response s st =
     (case response of
        None \<Rightarrow> Panicked ''nil pointer dereference'' st
      | Some r \<Rightarrow>
          (case response_Errors r (pom_topic (the_pom st s)) of
             None \<Rightarrow>
               obind (handleError s ErrIncompleteResponse st)
                 (\<lambda>st1. send_rebalance s (delete_subscription bom s st1))
           | Some topicErrors \<Rightarrow>
               (case topicErrors (pom_partition (the_pom st s)) of
                  None \<Rightarrow>
                    obind (handleError s ErrIncompleteResponse st)
                      (\<lambda>st1. send_rebalance s (delete_subscription bom s st1))
                | Some err \<Rightarrow>
                    (case err of
                       ErrNoError \<Rightarrow> Done st
                     | ErrUnknownTopicOrPartition \<Rightarrow> send_rebalance s (delete_subscription bom s st)
                     | ErrNotLeaderForPartition \<Rightarrow> send_rebalance s (delete_subscription bom s st)
                     | ErrLeaderNotAvailable \<Rightarrow> send_rebalance s (delete_subscription bom s st)
                     | ErrOther c \<Rightarrow>
                         obind (handleError s (KErr err) st)
                           (\<lambda>st1. send_rebalance s (delete_subscription bom s st1))))))"

fun flush_subscriptions :: "addr \<Rightarrow> OffsetCommitResponse option \<Rightarrow> addr list \<Rightarrow> state \<Rightarrow> state outcome" where
  "flush_subscriptions bom response [] st = Done st"
| "flush_subscriptions bom response (s # ss) st =
     obind (flush_subscription bom response s st) (flush_subscriptions bom response ss)"

text \<open>flushToBroker: after \<open>bom.abort(err)\<close> there is no return; the loop follows.\<close>

definition flushToBroker :: "addr \<Rightarrow> state \<Rightarrow> state outcome" where
  "flushToBroker bom st =
     (let request = constructRequest bom st;
          (response, err) = CommitOffset (om_client st) (bom_broker (the_bom st bom)) request
      in obind (case err of Some e \<Rightarrow> abort bom e st | None \<Rightarrow> Done st)
           (\<lambda>st1. flush_subscriptions bom response (bom_subscriptions (the_bom st1 bom)) st1))"

text \<open>
  The part of flushToBroker after the call of CommitOffset, as a function of the
  answer \<open>(response, err)\<close> of that call.
\<close>

definition flush_answered ::
  "addr \<Rightarrow> OffsetCommitResponse option \<times> error option \<Rightarrow> state \<Rightarrow> state outcome" where
  "flush_answered bom answer st =
     (case answer of (response, err) \<Rightarrow>
        obind (case err of Some e \<Rightarrow> abort bom e st | None \<Rightarrow> Done st)
          (\<lambda>st1. flush_subscriptions bom response (bom_subscriptions (the_bom st1 bom)) st1))"

text \<open>
  One iteration of the broker manager's mainLoop, for the case of the select that
  fires. The result says whether the loop goes on (\<open>True\<close>) or has returned.
\<close>

datatype select_case = TimerTick | NewSubscription

definition bom_mainLoop :: "addr \<Rightarrow> select_case \<Rightarrow> state \<Rightarrow> (state \<times> bool) outcome" where
  "bom_mainLoop bom c st =
     (case c of
        TimerTick \<Rightarrow> obind (flushToBroker bom st) (\<lambda>st1. Done (st1, True))
      | NewSubscription \<Rightarrow>
          (case bom_newSubscriptions (the_bom st bom) of
             [] \<Rightarrow>
               (if bom_closed (the_bom st bom)
                then Done (upd_bom bom (\<lambda>m. m\<lparr>bom_timer := False\<rparr>) st, False)
                else Blocked st)
           | s # ss \<Rightarrow>
               Done (upd_bom bom (\<lambda>m. m\<lparr>bom_newSubscriptions := ss,
                                        bom_subscriptions :=
                                          (if s \<in> set (bom_subscriptions m) then bom_subscriptions m
                                           else bom_subscriptions m @ [s])\<rparr>) st,
                     True)))"

section \<open>Runs of the system\<close>

text \<open>
  The tasks of the system interleave at the granularity of the functions above. An
  action is one call by the user, one loop iteration of a manager's task, or a change
  of what the collaborators will answer next. An action is enabled when the manager
  it names is allocated. (The source starts a partition manager's task only when its
  construction succeeded; letting every allocated manager step only adds runs.)
\<close>

datatype action =
    DoManagePartition string "32 word"
  | DoSetOffset addr "64 word"
  | DoSetMetadata addr string
  | DoClose addr
  | PomLoop addr
  | BomLoop addr select_case
  | Environment Client

fun enabled :: "action \<Rightarrow> state \<Rightarrow> bool" where
  "enabled (DoManagePartition topic partn) st = True"
| "enabled (DoSetOffset pom v) st = (pom < length (heap_poms st))"
| "enabled (DoSetMetadata pom v) st = (pom < length (heap_poms st))"
| "enabled (DoClose pom) st = (pom < length (heap_poms st))"
| "enabled (PomLoop pom) st = (pom < length (heap_poms st))"
| "enabled (BomLoop bom c) st = (bom < length (heap_boms st))"
| "enabled (Environment c) st = True"

fun step :: "action \<Rightarrow> state \<Rightarrow> state outcome" where
  "step (DoManagePartition topic partn) st =
     obind (ManagePartition topic partn st) (\<lambda>(st', r). Done st')"
| "step (DoSetOffset pom v) st = Done (SetOffset pom v st)"
| "step (DoSetMetadata pom v) st = Done (SetMetadata pom v st)"
| "step (DoClose pom) st = Done (fst (Close pom st))"
| "step (PomLoop pom) st = pom_mainLoop pom st"
| "step (BomLoop bom c) st = obind (bom_mainLoop bom c st) (\<lambda>(st', go_on). Done st')"
| "step (Environment c) st = Done (st\<lparr>om_client := c\<rparr>)"

text \<open>\<open>run as st\<close> is the state after the actions \<open>as\<close>, each enabled and returning.\<close>

fun run :: "action list \<Rightarrow> state \<Rightarrow> state option" where
  "run [] st = Some st"
| "run (a # as) st =
     (if enabled a st
      then (case step a st of Done st' \<Rightarrow> run as st' | Blocked s \<Rightarrow> None | Panicked m s \<Rightarrow> None)
      else None)"

text \<open>The state after the calls \<open>SetOffset(v)\<close> on \<open>pom\<close>, for the values \<open>v\<close> of \<open>vs\<close> in turn.\<close>

definition after_SetOffsets :: "addr \<Rightarrow> 64 word list \<Rightarrow> state \<Rightarrow> state" where
  "after_SetOffsets pom vs st = foldl (\<lambda>s v. SetOffset pom v s) st vs"

section \<open>Invariants\<close>

text \<open>Which manager the registry holds for a (topic, partition) pair.\<close>

definition registered :: "state \<Rightarrow> string \<Rightarrow> 32 word \<Rightarrow> addr option" where
  "registered st topic partn =
     (case om_poms st topic of None \<Rightarrow> None | Some topicManagers \<Rightarrow> topicManagers partn)"

text \<open>Every registered manager exists and is registered under its own pair.\<close>

definition poms_inv :: "state \<Rightarrow> bool" where
  "poms_inv st \<longleftrightarrow>
     (\<forall>topic partn pom. registered st topic partn = Some pom \<longrightarrow>
        pom < length (heap_poms st) \<and>
        pom_topic (the_pom st pom) = topic \<and> pom_partition (the_pom st pom) = partn)"

text \<open>The number of partition managers whose \<open>broker\<close> field points at \<open>bom\<close>.\<close>

definition pointing :: "state \<Rightarrow> addr \<Rightarrow> nat" where
  "pointing st bom = length (filter (\<lambda>m. pom_broker m = Some bom) (heap_poms st))"

definition refs_inv :: "state \<Rightarrow> bool" where
  "refs_inv st \<longleftrightarrow>
     (\<forall>pom < length (heap_poms st). \<forall>bom. pom_broker (the_pom st pom) = Some bom \<longrightarrow>
        bom < length (heap_boms st)) \<and>
     (\<forall>broker bom. om_boms st broker = Some bom \<longrightarrow> bom < length (heap_boms st)) \<and>
     (\<forall>bom < length (heap_boms st). bom_refs (the_bom st bom) = int (pointing st bom))"

text \<open>
  A registered broker manager is registered under its own broker and its attach
  channel is open; a broker manager whose attach channel is closed has no references.
\<close>

definition open_inv :: "state \<Rightarrow> bool" where
  "open_inv st \<longleftrightarrow>
     (\<forall>broker bom. om_boms st broker = Some bom \<longrightarrow>
        bom_broker (the_bom st bom) = broker \<and> \<not> bom_closed (the_bom st bom)) \<and>
     (\<forall>bom < length (heap_boms st). bom_closed (the_bom st bom) \<longrightarrow> bom_refs (the_bom st bom) = 0)"

definition slot_inv :: "state \<Rightarrow> bool" where
  "slot_inv st \<longleftrightarrow>
     (\<forall>pom < length (heap_poms st).
        cap (pom_rebalance (the_pom st pom)) = 1 \<and>
        length (buf (pom_rebalance (the_pom st pom))) \<le> 1)"

text \<open>
  \<open>links_kept st st'\<close>: from \<open>st\<close> to \<open>st'\<close> no manager was allocated, no partition
  manager changed its topic, partition or broker manager, no reference count changed,
  no attach channel was closed, no rebalance channel grew beyond its capacity, and
  registry entries of broker managers at most disappeared. Channel contents, offsets, metadata, subscriptions,
  waiting senders, the ticker, closed connections, the log and the collaborators'
  answers may differ.
\<close>

definition links_kept :: "state \<Rightarrow> state \<Rightarrow> bool" where
  "links_kept st st' \<longleftrightarrow>
     length (heap_poms st') = length (heap_poms st) \<and>
     length (heap_boms st') = length (heap_boms st) \<and>
     om_conf st' = om_conf st \<and> om_group st' = om_group st \<and>
     om_poms st' = om_poms st \<and>
     (\<forall>broker bom. om_boms st' broker = Some bom \<longrightarrow> om_boms st broker = Some bom) \<and>
     (\<forall>p. pom_topic (the_pom st' p) = pom_topic (the_pom st p) \<and>
          pom_partition (the_pom st' p) = pom_partition (the_pom st p) \<and>
          pom_broker (the_pom st' p) = pom_broker (the_pom st p) \<and>
          cap (pom_rebalance (the_pom st' p)) = cap (pom_rebalance (the_pom st p)) \<and>
          length (buf (pom_rebalance (the_pom st' p))) \<le>
            max (length (buf (pom_rebalance (the_pom st p)))) (cap (pom_rebalance (the_pom st p)))) \<and>
     (\<forall>b. bom_refs (the_bom st' b) = bom_refs (the_bom st b) \<and>
          bom_broker (the_bom st' b) = bom_broker (the_bom st b) \<and>
          bom_closed (the_bom st' b) = bom_closed (the_bom st b))"

section \<open>Example collaborators and states\<close>

text \<open>
  A client whose coordinator is broker 7; every fetch answers offset 42 and metadata
  \<open>m\<close> for the partitions asked, every commit succeeds for every partition.
\<close>

definition example_client :: Client where
  "example_client =
     \<lparr>Closed = False,
      client_Config = \<lparr>ChannelBufferSize = 2, Consumer_Return_Errors = True\<rparr>,
      RefreshCoordinator = (\<lambda>g. None),
      Coordinator = (\<lambda>g. Inr 7),
      FetchOffset = (\<lambda>broker request.
        (Some (\<lambda>k. if k \<in> set (fetch_partitions request)
                     then Some \<lparr>block_Offset = 42, block_Metadata = ''m'', block_Err = ErrNoError\<rparr>
                     else None), None)),
      CommitOffset = (\<lambda>broker request.
        (Some \<lparr>response_Errors = (\<lambda>t. Some (\<lambda>p. Some ErrNoError))\<rparr>, None))\<rparr>"

text \<open>The state NewOffsetManagerFromClient builds from it.\<close>

definition example_om :: state where
  "example_om =
     \<lparr>om_client = example_client, om_conf = client_Config example_client, om_group = [],
      om_poms = Map.empty, om_boms = Map.empty,
      heap_poms = [], heap_boms = [], closed_brokers = {}, logged = []\<rparr>"

text \<open>
  The state after \<open>ManagePartition("orders", 0)\<close> and the broker manager's receive:
  partition manager 0 is registered, points at broker manager 0 and is subscribed to it.
\<close>

definition example_orders0 :: partitionOffsetManager where
  "example_orders0 =
     \<lparr>pom_topic = ''orders'', pom_partition = 0, pom_offset = 42, pom_metadata = ''m'',
      pom_broker = Some 0, pom_errors = \<lparr>buf = [], cap = 2\<rparr>, pom_rebalance = \<lparr>buf = [], cap = 1\<rparr>\<rparr>"

definition example_bom0 :: brokerOffsetManager where
  "example_bom0 =
     \<lparr>bom_broker = 7, bom_timer = True, bom_newSubscriptions = [], bom_closed = False,
      bom_subscriptions = [0], bom_refs = 1\<rparr>"

definition example_managed :: state where
  "example_managed =
     example_om\<lparr>om_poms := [''orders'' \<mapsto> [0 \<mapsto> 0]], om_boms := [7 \<mapsto> 0],
                heap_poms := [example_orders0], heap_boms := [example_bom0]\<rparr>"

text \<open>What a call returned, and the state it left, when it returned.\<close>

definition returned :: "(state \<times> 'r) outcome \<Rightarrow> 'r option" where
  "returned m = (case m of Done (st, r) \<Rightarrow> Some r | Blocked s \<Rightarrow> None | Panicked msg s \<Rightarrow> None)"

definition final_state :: "(state \<times> 'r) outcome \<Rightarrow> state option" where
  "final_state m = (case m of Done (st, r) \<Rightarrow> Some st | Blocked s \<Rightarrow> None | Panicked msg s \<Rightarrow> None)"

text \<open>
  A partition manager has room when a send on its rebalance channel completes at once,
  and so does a send on its error channel if errors are returned there.
\<close>

definition has_room :: "state \<Rightarrow> addr \<Rightarrow> bool" where
  "has_room st q \<longleftrightarrow>
     length (buf (pom_rebalance (the_pom st q))) < cap (pom_rebalance (the_pom st q)) \<and>
     (Consumer_Return_Errors (om_conf st) \<longrightarrow>
        length (buf (pom_errors (the_pom st q))) < cap (pom_errors (the_pom st q)))"

text \<open>
  The state inside \<open>ManagePartition("orders", 0)\<close> when selectBroker has returned:
  partition manager 0 points at broker manager 0 and waits in its attach channel; its
  offset and metadata are still the zero values.
\<close>

definition example_parked :: state where
  "example_parked =
     example_om\<lparr>om_boms := [7 \<mapsto> 0],
                heap_poms := [example_orders0\<lparr>pom_offset := 0, pom_metadata := []\<rparr>],
                heap_boms := [example_bom0\<lparr>bom_newSubscriptions := [0], bom_subscriptions := []\<rparr>]\<rparr>"

text \<open>A client whose fetch answers a block with error code 16 for the partitions asked.\<close>

definition example_fetch_error_client :: Client where
  "example_fetch_error_client =
     example_client\<lparr>FetchOffset := (\<lambda>broker request.
        (Some (\<lambda>k. if k \<in> set (fetch_partitions request)
                     then Some \<lparr>block_Offset = 42, block_Metadata = ''m'', block_Err = ErrOther 16\<rparr>
                     else None), None))\<rparr>"

text \<open>A client whose commit answers "not leader for partition" for every partition.\<close>

definition example_not_leader_client :: Client where
  "example_not_leader_client =
     example_client\<lparr>CommitOffset := (\<lambda>broker request.
        (Some \<lparr>response_Errors = (\<lambda>t. Some (\<lambda>p. Some ErrNotLeaderForPartition))\<rparr>, None))\<rparr>"

text \<open>
  A client whose commit fails at the transport level and answers no response, and a
  state with two partition managers pointing at broker manager 0: manager 0 is
  subscribed, manager 1 waits in the attach channel.
\<close>

definition example_commit_fails_client :: Client where
  "example_commit_fails_client =
     example_client\<lparr>CommitOffset := (\<lambda>broker request. (None, Some (ErrExternal ''EOF'')))\<rparr>"

definition example_orders1 :: partitionOffsetManager where
  "example_orders1 = example_orders0\<lparr>pom_partition := 1\<rparr>"

definition example_two :: state where
  "example_two =
     example_om\<lparr>om_client := example_commit_fails_client,
                om_poms := [''orders'' \<mapsto> [0 \<mapsto> 0, 1 \<mapsto> 1]], om_boms := [7 \<mapsto> 0],
                heap_poms := [example_orders0, example_orders1],
                heap_boms := [example_bom0\<lparr>bom_newSubscriptions := [1], bom_refs := 2\<rparr>]\<rparr>"

text \<open>
  The state in which the flush of broker manager 0 waits inside abort, and the state
  after both partition managers have handled their rebalance signal.
\<close>

definition example_aborting :: state where
  "example_aborting =
     example_two\<lparr>om_boms := Map.empty, closed_brokers := {7},
       heap_poms :=
         [example_orders0\<lparr>pom_errors := \<lparr>buf = [ErrExternal ''EOF''], cap = 2\<rparr>,
                          pom_rebalance := \<lparr>buf = [()], cap = 1\<rparr>\<rparr>,
          example_orders1\<lparr>pom_errors := \<lparr>buf = [ErrExternal ''EOF''], cap = 2\<rparr>,
                          pom_rebalance := \<lparr>buf = [()], cap = 1\<rparr>\<rparr>],
       heap_boms := [example_bom0\<lparr>bom_newSubscriptions := [], bom_refs := 2\<rparr>]\<rparr>"

definition example_detached :: state where
  "example_detached =
     example_two\<lparr>om_boms := [7 \<mapsto> 1], closed_brokers := {7},
       heap_poms :=
         [example_orders0\<lparr>pom_broker := Some 1,
                          pom_errors := \<lparr>buf = [ErrExternal ''EOF''], cap = 2\<rparr>\<rparr>,
          example_orders1\<lparr>pom_broker := Some 1,
                          pom_errors := \<lparr>buf = [ErrExternal ''EOF''], cap = 2\<rparr>\<rparr>],
       heap_boms :=
         [example_bom0\<lparr>bom_closed := True, bom_refs := 0\<rparr>,
          \<lparr>bom_broker = 7, bom_timer = True, bom_newSubscriptions = [0, 1], bom_closed = False,
           bom_subscriptions = [], bom_refs = 2\<rparr>]\<rparr>"

text \<open>
  The state after ManagePartition for ("orders", 0) and ("orders", 1): both managers
  point at broker manager 0 and wait in its attach channel.
\<close>

definition example_shared :: state where
  "example_shared =
     example_om\<lparr>om_poms := [''orders'' \<mapsto> [0 \<mapsto> 0, 1 \<mapsto> 1]], om_boms := [7 \<mapsto> 0],
                heap_poms := [example_orders0, example_orders0\<lparr>pom_partition := 1\<rparr>],
                heap_boms := [example_bom0\<lparr>bom_newSubscriptions := [0, 1], bom_subscriptions := [],
                                          bom_refs := 2\<rparr>]\<rparr>"

text \<open>A client whose RefreshCoordinator fails.\<close>

definition example_refresh_fails_client :: Client where
  "example_refresh_fails_client =
     example_client\<lparr>RefreshCoordinator := (\<lambda>g. Some (ErrExternal ''no coordinator''))\<rparr>"

text \<open>
  The state after a flush whose response said "not leader for partition": manager 0
  is unsubscribed and one rebalance signal is pending for it.
\<close>

definition example_signalled :: state where
  "example_signalled =
     example_managed\<lparr>heap_poms := [example_orders0\<lparr>pom_rebalance := \<lparr>buf = [()], cap = 1\<rparr>\<rparr>],
                     heap_boms := [example_bom0\<lparr>bom_subscriptions := []\<rparr>]\<rparr>"

text \<open>
  The state after \<open>ManagePartition("orders", 0)\<close>, the broker manager's receive, a
  second \<open>ManagePartition("orders", 0)\<close> (which is refused), the broker manager's
  receive of the manager that call constructed, and \<open>SetOffset(50)\<close> on the registered
  manager: manager 1, which the refused call discarded, is subscribed to broker
  manager 0 beside manager 0 and holds the offset it fetched.
\<close>

definition example_leaked :: state where
  "example_leaked =
     example_managed\<lparr>heap_poms := [example_orders0\<lparr>pom_offset := 50\<rparr>, example_orders0],
                     heap_boms := [example_bom0\<lparr>bom_subscriptions := [0, 1], bom_refs := 2\<rparr>]\<rparr>"

section \<open>Basic facts\<close>

lemma the_pom_upd_pom:
  "the_pom (upd_pom p f st) q =
     (if q = p \<and> p < length (heap_poms st) then f (the_pom st p) else the_pom st q)"
  by (cases "p < length (heap_poms st)")
     (auto simp: the_pom_def upd_pom_def nth_list_update list_update_beyond)

lemma the_bom_upd_pom: "the_bom (upd_pom p f st) b = the_bom st b"
  by (simp add: the_bom_def upd_pom_def)

lemma the_bom_upd_bom:
  "the_bom (upd_bom b f st) c =
     (if c = b \<and> b < length (heap_boms st) then f (the_bom st b) else the_bom st c)"
  by (cases "b < length (heap_boms st)")
     (auto simp: the_bom_def upd_bom_def nth_list_update list_update_beyond)

lemma the_pom_upd_bom: "the_pom (upd_bom b f st) p = the_pom st p"
  by (simp add: the_pom_def upd_bom_def)

lemma obind_Done:
  "obind m f = Done y \<longleftrightarrow> (\<exists>x. m = Done x \<and> f x = Done y)"
  by (cases m) simp_all

section \<open>The accessors\<close>

text \<open>
  Claim C10. SetOffset changes the offset field only and SetMetadata the metadata field
  only: for every partition manager \<open>q\<close>, the one written to included, SetOffset leaves
  topic, partition and metadata as they were, and SetMetadata leaves topic, partition
  and offset as they were; both also leave the manager's broker pointer and channels,
  the broker managers and the registry as they were.
\<close>

theorem SetOffset_SetMetadata_frame:
  "pom_topic (the_pom (SetOffset p v st) q) = pom_topic (the_pom st q) \<and>
   pom_partition (the_pom (SetOffset p v st) q) = pom_partition (the_pom st q) \<and>
   pom_metadata (the_pom (SetOffset p v st) q) = pom_metadata (the_pom st q) \<and>
   pom_broker (the_pom (SetOffset p v st) q) = pom_broker (the_pom st q) \<and>
   pom_errors (the_pom (SetOffset p v st) q) = pom_errors (the_pom st q) \<and>
   pom_rebalance (the_pom (SetOffset p v st) q) = pom_rebalance (the_pom st q) \<and>
   heap_boms (SetOffset p v st) = heap_boms st \<and>
   om_poms (SetOffset p v st) = om_poms st \<and> om_boms (SetOffset p v st) = om_boms st \<and>
   pom_topic (the_pom (SetMetadata p m st) q) = pom_topic (the_pom st q) \<and>
   pom_partition (the_pom (SetMetadata p m st) q) = pom_partition (the_pom st q) \<and>
   pom_offset (the_pom (SetMetadata p m st) q) = pom_offset (the_pom st q) \<and>
   pom_broker (the_pom (SetMetadata p m st) q) = pom_broker (the_pom st q) \<and>
   pom_errors (the_pom (SetMetadata p m st) q) = pom_errors (the_pom st q) \<and>
   pom_rebalance (the_pom (SetMetadata p m st) q) = pom_rebalance (the_pom st q) \<and>
   heap_boms (SetMetadata p m st) = heap_boms st \<and>
   om_poms (SetMetadata p m st) = om_poms st \<and> om_boms (SetMetadata p m st) = om_boms st"
proof -
  have rest: "heap_boms (upd_pom p f st) = heap_boms st" "om_poms (upd_pom p f st) = om_poms st"
    "om_boms (upd_pom p f st) = om_boms st" for f
    by (simp_all add: upd_pom_def)
  show ?thesis
    by (simp add: SetOffset_def SetMetadata_def the_pom_upd_pom rest)
qed

text \<open>
  Claim C8. In the source AsyncClose has an empty body and Close only calls it: both
  leave the whole state as it is, the broker attachment and the reference count
  included, and Close returns nil.
\<close>

theorem AsyncClose_Close_noop:
  "AsyncClose p st = st \<and> Close p st = (st, None)"
  by (simp add: AsyncClose_def Close_def)

lemmas example_defs = example_client_def example_om_def example_orders0_def example_bom0_def
  example_managed_def example_parked_def example_fetch_error_client_def

lemmas heap_defs = upd_pom_def upd_bom_def the_pom_def the_bom_def

lemmas pom_defs = ManagePartition_def ManagePartition_register_def
  newPartitionOffsetManager_def selectBroker_def
  selectBroker_release_def selectBroker_attach_def
  fetchInitialOffset_def refBrokerOffsetManager_def newBrokerOffsetManager_def
  unrefBrokerOffsetManager_def send_newSubscriptions_def handleError_def send_rebalance_def
  make_chan_def chan_send_def chan_recv_def AddPartition_def GetBlock_def

section \<open>The initial fetch\<close>

lemma fetchInitialOffset_success:
  assumes "pom_broker (the_pom st p) = Some b" and "p < length (heap_poms st)"
    and "FetchOffset (om_client st) (bom_broker (the_bom st b))
           \<lparr>Version = 1, ConsumerGroup = om_group st,
            fetch_partitions = [(pom_topic (the_pom st p), pom_partition (the_pom st p))]\<rparr> = (Some r, None)"
    and "GetBlock r (pom_topic (the_pom st p)) (pom_partition (the_pom st p)) = Some blk"
    and "block_Err blk = ErrNoError"
  shows "\<exists>st'. fetchInitialOffset p st = Done (st', None) \<and>
               Offset p st' = block_Offset blk \<and> Metadata p st' = block_Metadata blk"
  using assms
  by (simp add: fetchInitialOffset_def AddPartition_def Offset_def Metadata_def the_pom_upd_pom)

lemma fetchInitialOffset_no_block:
  assumes "pom_broker (the_pom st p) = Some b"
    and "FetchOffset (om_client st) (bom_broker (the_bom st b))
           \<lparr>Version = 1, ConsumerGroup = om_group st,
            fetch_partitions = [(pom_topic (the_pom st p), pom_partition (the_pom st p))]\<rparr> = (Some r, None)"
    and "GetBlock r (pom_topic (the_pom st p)) (pom_partition (the_pom st p)) = None"
  shows "fetchInitialOffset p st = Done (st, Some ErrIncompleteResponse)"
  using assms by (simp add: fetchInitialOffset_def AddPartition_def)

text \<open>
  A block with an error code other than none: the default branch returns the variable
  \<open>err\<close>, which is nil there, so the fetch reports success and changes nothing.
\<close>

lemma fetchInitialOffset_error_code:
  assumes "pom_broker (the_pom st p) = Some b"
    and "FetchOffset (om_client st) (bom_broker (the_bom st b))
           \<lparr>Version = 1, ConsumerGroup = om_group st,
            fetch_partitions = [(pom_topic (the_pom st p), pom_partition (the_pom st p))]\<rparr> = (Some r, None)"
    and "GetBlock r (pom_topic (the_pom st p)) (pom_partition (the_pom st p)) = Some blk"
    and "block_Err blk \<noteq> ErrNoError"
  shows "fetchInitialOffset p st = Done (st, None)"
  using assms by (simp add: fetchInitialOffset_def AddPartition_def split: KError.splits)

text \<open>
  Claim C7. Let partition manager \<open>p\<close> be attached to a broker manager and let the
  fetch for exactly its (topic, partition), at version 1, answer a response without
  transport error. If the response has a block for the pair with error code none,
  fetchInitialOffset returns nil and Offset() and Metadata() are the block's offset and
  metadata. If the response has no block for the pair, it returns ErrIncompleteResponse
  and changes nothing.
\<close>

theorem fetchInitialOffset_initializes:
  assumes "pom_broker (the_pom st p) = Some b" and "p < length (heap_poms st)"
    and "FetchOffset (om_client st) (bom_broker (the_bom st b))
           \<lparr>Version = 1, ConsumerGroup = om_group st,
            fetch_partitions = [(pom_topic (the_pom st p), pom_partition (the_pom st p))]\<rparr> = (Some r, None)"
  shows "(\<forall>blk. GetBlock r (pom_topic (the_pom st p)) (pom_partition (the_pom st p)) = Some blk \<and>
               block_Err blk = ErrNoError \<longrightarrow>
            (\<exists>st'. fetchInitialOffset p st = Done (st', None) \<and>
                   Offset p st' = block_Offset blk \<and> Metadata p st' = block_Metadata blk)) \<and>
         (GetBlock r (pom_topic (the_pom st p)) (pom_partition (the_pom st p)) = None \<longrightarrow>
            fetchInitialOffset p st = Done (st, Some ErrIncompleteResponse))"
  using fetchInitialOffset_success [OF assms] fetchInitialOffset_no_block [OF assms(1) assms(3)]
  by blast

text \<open>
  Scenario A: managing ("orders", 0) on a fresh registry, against a coordinator that
  answers offset 42 and metadata \<open>m\<close>, returns manager 0 with Offset() = 42 and
  Metadata() = \<open>m\<close>; inside that call, fetchInitialOffset runs in \<open>example_parked\<close>.
\<close>

theorem fetchInitialOffset_initializes_witness:
  "returned (ManagePartition ''orders'' 0 example_om) = Some (Inr 0) \<and>
   map_option (Offset 0) (final_state (ManagePartition ''orders'' 0 example_om)) = Some 42 \<and>
   map_option (Metadata 0) (final_state (ManagePartition ''orders'' 0 example_om)) = Some ''m'' \<and>
   (\<exists>st'. fetchInitialOffset 0 example_parked = Done (st', None) \<and>
          Offset 0 st' = 42 \<and> Metadata 0 st' = ''m'')"
proof -
  let ?r = "\<lambda>k. if k = (''orders'', 0 :: 32 word)
                 then Some \<lparr>block_Offset = 42, block_Metadata = ''m'', block_Err = ErrNoError\<rparr>
                 else None"
  have h1: "pom_broker (the_pom example_parked 0) = Some 0"
    by (simp add: example_defs heap_defs)
  have h2: "0 < length (heap_poms example_parked)"
    by (simp add: example_defs)
  have h3: "FetchOffset (om_client example_parked) (bom_broker (the_bom example_parked 0))
              \<lparr>Version = 1, ConsumerGroup = om_group example_parked,
               fetch_partitions = [(pom_topic (the_pom example_parked 0),
                                    pom_partition (the_pom example_parked 0))]\<rparr> = (Some ?r, None)"
    by (simp add: example_defs heap_defs)
  have "\<exists>st'. fetchInitialOffset 0 example_parked = Done (st', None) \<and>
              Offset 0 st' = 42 \<and> Metadata 0 st' = ''m''"
    using fetchInitialOffset_initializes [OF h1 h2 h3]
    by (simp add: GetBlock_def example_defs heap_defs)
  moreover have "returned (ManagePartition ''orders'' 0 example_om) = Some (Inr 0)"
    by (simp add: example_defs pom_defs heap_defs returned_def)
  moreover have "map_option (Offset 0) (final_state (ManagePartition ''orders'' 0 example_om)) = Some 42"
    by (simp add: example_defs pom_defs heap_defs final_state_def Offset_def)
  moreover have "map_option (Metadata 0) (final_state (ManagePartition ''orders'' 0 example_om)) = Some ''m''"
    by (simp add: example_defs pom_defs heap_defs final_state_def Metadata_def)
  ultimately show ?thesis by blast
qed

text \<open>
  Claim C3. When the coordinator answers a block with error code 16 for the requested
  pair, the source does not fail: fetchInitialOffset returns nil and leaves the
  manager as it was, and ManagePartition returns the new manager, whose offset is the
  zero value.
\<close>

theorem fetchInitialOffset_error_code_not_propagated:
  "fetchInitialOffset 0 (example_parked\<lparr>om_client := example_fetch_error_client\<rparr>) =
     Done (example_parked\<lparr>om_client := example_fetch_error_client\<rparr>, None) \<and>
   returned (ManagePartition ''orders'' 0 (example_om\<lparr>om_client := example_fetch_error_client\<rparr>)) =
     Some (Inr 0) \<and>
   map_option (Offset 0)
     (final_state (ManagePartition ''orders'' 0 (example_om\<lparr>om_client := example_fetch_error_client\<rparr>))) =
     Some 0"
proof -
  have "fetchInitialOffset 0 (example_parked\<lparr>om_client := example_fetch_error_client\<rparr>) =
          Done (example_parked\<lparr>om_client := example_fetch_error_client\<rparr>, None)"
    by (simp add: example_defs pom_defs heap_defs)
  moreover have
    "returned (ManagePartition ''orders'' 0 (example_om\<lparr>om_client := example_fetch_error_client\<rparr>)) =
       Some (Inr 0)"
    by (simp add: example_defs pom_defs heap_defs returned_def)
  moreover have
    "map_option (Offset 0)
       (final_state (ManagePartition ''orders'' 0 (example_om\<lparr>om_client := example_fetch_error_client\<rparr>))) =
       Some 0"
    by (simp add: example_defs pom_defs heap_defs final_state_def Offset_def)
  ultimately show ?thesis by blast
qed

section \<open>Frames of the heap updates and of the broker manager's task\<close>

lemma upd_pom_fields:
  "length (heap_poms (upd_pom p f st)) = length (heap_poms st)"
  "heap_boms (upd_pom p f st) = heap_boms st"
  "om_poms (upd_pom p f st) = om_poms st"
  "om_boms (upd_pom p f st) = om_boms st"
  "om_client (upd_pom p f st) = om_client st"
  "om_conf (upd_pom p f st) = om_conf st"
  "om_group (upd_pom p f st) = om_group st"
  "closed_brokers (upd_pom p f st) = closed_brokers st"
  "logged (upd_pom p f st) = logged st"
  by (simp_all add: upd_pom_def)

lemma upd_bom_fields:
  "length (heap_boms (upd_bom b g st)) = length (heap_boms st)"
  "heap_poms (upd_bom b g st) = heap_poms st"
  "om_poms (upd_bom b g st) = om_poms st"
  "om_boms (upd_bom b g st) = om_boms st"
  "om_client (upd_bom b g st) = om_client st"
  "om_conf (upd_bom b g st) = om_conf st"
  "om_group (upd_bom b g st) = om_group st"
  "closed_brokers (upd_bom b g st) = closed_brokers st"
  "logged (upd_bom b g st) = logged st"
  by (simp_all add: upd_bom_def)

lemma the_pom_fields:
  "the_pom (st\<lparr>om_boms := x\<rparr>) p = the_pom st p"
  "the_pom (st\<lparr>om_poms := y\<rparr>) p = the_pom st p"
  "the_pom (st\<lparr>logged := z\<rparr>) p = the_pom st p"
  "the_pom (st\<lparr>closed_brokers := w\<rparr>) p = the_pom st p"
  "the_pom (st\<lparr>om_client := c\<rparr>) p = the_pom st p"
  "the_pom (st\<lparr>heap_boms := h\<rparr>) p = the_pom st p"
  by (simp_all add: the_pom_def)

lemma the_bom_fields:
  "the_bom (st\<lparr>om_boms := x\<rparr>) b = the_bom st b"
  "the_bom (st\<lparr>om_poms := y\<rparr>) b = the_bom st b"
  "the_bom (st\<lparr>logged := z\<rparr>) b = the_bom st b"
  "the_bom (st\<lparr>closed_brokers := w\<rparr>) b = the_bom st b"
  "the_bom (st\<lparr>om_client := c\<rparr>) b = the_bom st b"
  "the_bom (st\<lparr>heap_poms := h\<rparr>) b = the_bom st b"
  by (simp_all add: the_bom_def)

lemmas heap_simps = upd_pom_fields upd_bom_fields the_pom_fields the_bom_fields
  the_pom_upd_pom the_pom_upd_bom the_bom_upd_pom the_bom_upd_bom

lemma links_kept_refl: "links_kept st st"
  by (simp add: links_kept_def)

lemma links_kept_trans:
  assumes "links_kept st st1" and "links_kept st1 st2"
  shows "links_kept st st2"
proof -
  have "length (buf (pom_rebalance (the_pom st2 p))) \<le>
          max (length (buf (pom_rebalance (the_pom st p)))) (cap (pom_rebalance (the_pom st p)))" for p
  proof -
    have a: "length (buf (pom_rebalance (the_pom st2 p))) \<le>
          max (length (buf (pom_rebalance (the_pom st1 p)))) (cap (pom_rebalance (the_pom st1 p)))"
      using assms(2) by (simp add: links_kept_def)
    have b: "length (buf (pom_rebalance (the_pom st1 p))) \<le>
          max (length (buf (pom_rebalance (the_pom st p)))) (cap (pom_rebalance (the_pom st p)))"
      using assms(1) by (simp add: links_kept_def)
    have c: "cap (pom_rebalance (the_pom st1 p)) = cap (pom_rebalance (the_pom st p))"
      using assms(1) by (simp add: links_kept_def)
    from a b c show ?thesis by simp
  qed
  moreover have "om_boms st2 broker = Some bom \<longrightarrow> om_boms st broker = Some bom" for broker bom
    using assms by (simp add: links_kept_def)
  ultimately show ?thesis
    using assms by (simp add: links_kept_def)
qed

lemma handleError_links_kept: "handleError p e st = Done st' \<Longrightarrow> links_kept st st'"
  by (auto simp: handleError_def links_kept_def heap_simps split: if_splits option.splits)

lemma send_rebalance_links_kept: "send_rebalance p st = Done st' \<Longrightarrow> links_kept st st'"
  by (auto simp: send_rebalance_def links_kept_def chan_send_def heap_simps split: if_splits option.splits)

lemma delete_subscription_links_kept: "links_kept st (delete_subscription b s st)"
  by (simp add: delete_subscription_def links_kept_def heap_simps)

lemma abandonBroker_links_kept: "links_kept st (abandonBroker b st)"
  by (simp add: abandonBroker_def links_kept_def heap_simps)

lemma flush_subscription_links_kept:
  "flush_subscription b response s st = Done st' \<Longrightarrow> links_kept st st'"
  by (auto simp: flush_subscription_def obind_Done split: option.splits KError.splits
      intro: links_kept_refl
      dest!: handleError_links_kept send_rebalance_links_kept
      intro: links_kept_trans [OF _ links_kept_trans [OF delete_subscription_links_kept]]
             links_kept_trans [OF delete_subscription_links_kept])

lemma flush_subscriptions_links_kept:
  "flush_subscriptions b response ss st = Done st' \<Longrightarrow> links_kept st st'"
  by (induction ss arbitrary: st)
     (auto simp: obind_Done intro: links_kept_refl links_kept_trans dest: flush_subscription_links_kept)

lemma abort_subscriptions_links_kept:
  "abort_subscriptions e ps st = Done st' \<Longrightarrow> links_kept st st'"
  by (induction ps arbitrary: st)
     (auto simp: obind_Done intro: links_kept_refl
        dest!: handleError_links_kept send_rebalance_links_kept intro: links_kept_trans)

lemma upd_bom_queue_links_kept:
  "links_kept st (upd_bom b (\<lambda>m. m\<lparr>bom_newSubscriptions := q\<rparr>) st)"
  by (simp add: links_kept_def heap_simps)

lemma abort_newSubscriptions_links_kept:
  "abort_newSubscriptions b e ss st = Done st' \<Longrightarrow> links_kept st st'"
proof (induction ss arbitrary: st)
  case Nil
  then show ?case by (auto split: if_splits intro: links_kept_refl)
next
  case (Cons s ss)
  from Cons.prems obtain s1 s2 where
    1: "handleError s e (upd_bom b (\<lambda>m. m\<lparr>bom_newSubscriptions := ss\<rparr>) st) = Done s1"
    and 2: "send_rebalance s s1 = Done s2"
    and 3: "abort_newSubscriptions b e ss s2 = Done st'"
    by (auto simp: obind_Done)
  show ?case
    using upd_bom_queue_links_kept handleError_links_kept [OF 1] send_rebalance_links_kept [OF 2]
      Cons.IH [OF 3] links_kept_trans by blast
qed

lemma abort_links_kept: "abort b e st = Done st' \<Longrightarrow> links_kept st st'"
proof -
  assume a: "abort b e st = Done st'"
  let ?st1 = "abandonBroker b st"
  let ?st2 = "?st1\<lparr>closed_brokers := insert (bom_broker (the_bom ?st1 b)) (closed_brokers ?st1)\<rparr>"
  have c2: "links_kept st ?st2"
    by (simp add: abandonBroker_def links_kept_def heap_simps)
  from a obtain st3 where
    3: "abort_subscriptions e (bom_subscriptions (the_bom ?st2 b)) ?st2 = Done st3"
    and 4: "abort_newSubscriptions b e (bom_newSubscriptions (the_bom st3 b)) st3 = Done st'"
    by (auto simp: abort_def Let_def obind_Done)
  show ?thesis
    using c2 abort_subscriptions_links_kept [OF 3] abort_newSubscriptions_links_kept [OF 4]
      links_kept_trans by blast
qed

lemma flushToBroker_links_kept: "flushToBroker b st = Done st' \<Longrightarrow> links_kept st st'"
  by (auto simp: flushToBroker_def Let_def obind_Done split: prod.splits option.splits
        dest!: abort_links_kept flush_subscriptions_links_kept intro: links_kept_trans)

lemma bom_mainLoop_links_kept: "bom_mainLoop b c st = Done (st', go_on) \<Longrightarrow> links_kept st st'"
  by (auto simp: bom_mainLoop_def obind_Done links_kept_def [of st "upd_bom _ _ _"] heap_simps
        split: select_case.splits list.splits if_splits dest: flushToBroker_links_kept)

section \<open>The flush on a successful commit\<close>

lemma handleError_other_pom:
  "handleError q e st = Done st' \<Longrightarrow> s \<noteq> q \<Longrightarrow> the_pom st' s = the_pom st s"
  by (auto simp: handleError_def heap_simps split: if_splits option.splits)

lemma handleError_boms:
  "handleError q e st = Done st' \<Longrightarrow> heap_boms st' = heap_boms st"
  by (auto simp: handleError_def heap_simps split: if_splits option.splits)

lemma send_rebalance_other_pom:
  "send_rebalance q st = Done st' \<Longrightarrow> s \<noteq> q \<Longrightarrow> the_pom st' s = the_pom st s"
  by (auto simp: send_rebalance_def heap_simps split: option.splits)

lemma send_rebalance_boms:
  "send_rebalance q st = Done st' \<Longrightarrow> heap_boms st' = heap_boms st"
  by (auto simp: send_rebalance_def heap_simps split: option.splits)

lemma send_rebalance_self:
  "send_rebalance s st = Done st' \<Longrightarrow> s < length (heap_poms st) \<Longrightarrow>
     the_pom st' s = (the_pom st s)\<lparr>pom_rebalance :=
        (pom_rebalance (the_pom st s))\<lparr>buf := buf (pom_rebalance (the_pom st s)) @ [()]\<rparr>\<rparr>"
  by (auto simp: send_rebalance_def chan_send_def heap_simps split: option.splits if_splits)

lemma the_bom_heap_eq: "heap_boms st' = heap_boms st \<Longrightarrow> the_bom st' b = the_bom st b"
  by (simp add: the_bom_def)

lemma the_pom_delete_subscription: "the_pom (delete_subscription b s st) p = the_pom st p"
  by (simp add: delete_subscription_def heap_simps)

lemma subscriptions_delete_subscription:
  "bom_subscriptions (the_bom (delete_subscription b s st) b) =
     (if b < length (heap_boms st) then removeAll s (bom_subscriptions (the_bom st b))
      else bom_subscriptions (the_bom st b))"
  by (simp add: delete_subscription_def heap_simps)

lemma flush_subscription_other_pom:
  "flush_subscription b response q st = Done st' \<Longrightarrow> s \<noteq> q \<Longrightarrow> the_pom st' s = the_pom st s"
  by (auto simp: flush_subscription_def obind_Done the_pom_delete_subscription
      split: option.splits KError.splits
      dest!: handleError_other_pom [where s = s] send_rebalance_other_pom [where s = s])

lemma flush_subscription_subscriptions:
  "flush_subscription b response q st = Done st' \<Longrightarrow>
     set (bom_subscriptions (the_bom st' b)) \<subseteq> set (bom_subscriptions (the_bom st b))"
  by (auto simp: flush_subscription_def obind_Done subscriptions_delete_subscription
      split: option.splits KError.splits if_splits
      dest!: handleError_boms send_rebalance_boms the_bom_heap_eq [where b = b])

lemma flush_subscriptions_other_pom:
  "flush_subscriptions b response ss st = Done st' \<Longrightarrow> s \<notin> set ss \<Longrightarrow> the_pom st' s = the_pom st s"
  by (induction ss arbitrary: st) (auto simp: obind_Done dest: flush_subscription_other_pom)

lemma flush_subscriptions_subscriptions:
  "flush_subscriptions b response ss st = Done st' \<Longrightarrow>
     set (bom_subscriptions (the_bom st' b)) \<subseteq> set (bom_subscriptions (the_bom st b))"
  by (induction ss arbitrary: st) (auto simp: obind_Done dest!: flush_subscription_subscriptions)

lemma flush_subscriptions_append:
  "flush_subscriptions b response (xs @ ys) st =
     obind (flush_subscriptions b response xs st) (flush_subscriptions b response ys)"
proof (induction xs arbitrary: st)
  case Nil
  then show ?case by simp
next
  case (Cons x xs)
  then show ?case by (cases "flush_subscription b response x st") simp_all
qed

text \<open>The body of the loop for a subscription whose code is in the coordinator-moved class.\<close>

lemma flush_subscription_moved_eq:
  assumes "response_Errors r (pom_topic (the_pom st s)) = Some te"
    and "te (pom_partition (the_pom st s)) = Some code"
    and "code \<in> {ErrUnknownTopicOrPartition, ErrNotLeaderForPartition, ErrLeaderNotAvailable}"
  shows "flush_subscription b (Some r) s st = send_rebalance s (delete_subscription b s st)"
  using assms by (auto simp: flush_subscription_def)

lemma flush_subscription_moved:
  assumes "response_Errors r (pom_topic (the_pom st s)) = Some te"
    and "te (pom_partition (the_pom st s)) = Some code"
    and "code \<in> {ErrUnknownTopicOrPartition, ErrNotLeaderForPartition, ErrLeaderNotAvailable}"
    and "s < length (heap_poms st)" and "b < length (heap_boms st)"
    and "flush_subscription b (Some r) s st = Done st'"
  shows "s \<notin> set (bom_subscriptions (the_bom st' b)) \<and>
         buf (pom_rebalance (the_pom st' s)) = buf (pom_rebalance (the_pom st s)) @ [()] \<and>
         pom_errors (the_pom st' s) = pom_errors (the_pom st s) \<and>
         logged st' = logged st"
proof -
  let ?d = "delete_subscription b s st"
  have d: "send_rebalance s ?d = Done st'"
    using assms(6) flush_subscription_moved_eq [OF assms(1-3)] by simp
  have len: "s < length (heap_poms ?d)"
    using assms(4) by (simp add: delete_subscription_def heap_simps)
  have "the_bom st' b = the_bom ?d b"
    using send_rebalance_boms [OF d] by (rule the_bom_heap_eq)
  then have 1: "s \<notin> set (bom_subscriptions (the_bom st' b))"
    using assms(5) by (simp add: subscriptions_delete_subscription)
  have 2: "the_pom st' s = (the_pom st s)\<lparr>pom_rebalance :=
        (pom_rebalance (the_pom st s))\<lparr>buf := buf (pom_rebalance (the_pom st s)) @ [()]\<rparr>\<rparr>"
    using send_rebalance_self [OF d len] by (simp add: the_pom_delete_subscription)
  have 3: "logged st' = logged st"
    using d by (auto simp: send_rebalance_def delete_subscription_def heap_simps split: option.splits)
  from 1 2 3 show ?thesis by simp
qed


lemma flush_subscription_returns:
  assumes "has_room st q"
  shows "\<exists>st'. flush_subscription b (Some r) q st = Done st'"
  using assms
  by (auto simp: has_room_def flush_subscription_def handleError_def send_rebalance_def chan_send_def
        delete_subscription_def heap_simps split: option.splits KError.splits)

lemma has_room_cong:
  "the_pom st' q = the_pom st q \<Longrightarrow> om_conf st' = om_conf st \<Longrightarrow> has_room st' q = has_room st q"
  by (simp add: has_room_def)

lemma flush_subscriptions_returns:
  "distinct ss \<Longrightarrow> \<forall>q \<in> set ss. has_room st q \<Longrightarrow>
     \<exists>st'. flush_subscriptions b (Some r) ss st = Done st'"
proof (induction ss arbitrary: st)
  case Nil
  then show ?case by simp
next
  case (Cons q ss)
  from Cons.prems obtain st1 where 1: "flush_subscription b (Some r) q st = Done st1"
    using flush_subscription_returns [of st q b r] by auto
  have conf: "om_conf st1 = om_conf st"
    using flush_subscription_links_kept [OF 1] by (simp add: links_kept_def)
  have "\<forall>q' \<in> set ss. has_room st1 q'"
  proof
    fix q' assume q': "q' \<in> set ss"
    then have "q' \<noteq> q" using Cons.prems(1) by auto
    then have "the_pom st1 q' = the_pom st q'"
      using flush_subscription_other_pom [OF 1] by simp
    then show "has_room st1 q'"
      using has_room_cong [OF _ conf] Cons.prems(2) q' by simp
  qed
  with Cons.IH [of st1] Cons.prems(1) obtain st' where
    "flush_subscriptions b (Some r) ss st1 = Done st'" by auto
  with 1 show ?case by simp
qed

text \<open>
  Claim C6. Let the commit succeed at the transport level and let its response give a
  subscribed partition manager \<open>s\<close> an error code of the coordinator-moved class
  (unknown topic or partition, not leader for partition, leader not available). Then
  every flush that returns has removed \<open>s\<close> from the subscriptions, has put one
  signal into \<open>s\<close>'s rebalance channel, and has left \<open>s\<close>'s error channel as it
  was. The flush does return when every subscribed manager has room in its channels.
\<close>

theorem flushToBroker_coordinator_moved:
  assumes commit: "CommitOffset (om_client st) (bom_broker (the_bom st b)) (constructRequest b st) =
                     (Some r, None)"
    and sub: "s \<in> set (bom_subscriptions (the_bom st b))"
    and dist: "distinct (bom_subscriptions (the_bom st b))"
    and valid: "s < length (heap_poms st)" "b < length (heap_boms st)"
    and code: "response_Errors r (pom_topic (the_pom st s)) = Some te"
      "te (pom_partition (the_pom st s)) = Some code"
      "code \<in> {ErrUnknownTopicOrPartition, ErrNotLeaderForPartition, ErrLeaderNotAvailable}"
  shows "(\<forall>st'. flushToBroker b st = Done st' \<longrightarrow>
            s \<notin> set (bom_subscriptions (the_bom st' b)) \<and>
            buf (pom_rebalance (the_pom st' s)) = buf (pom_rebalance (the_pom st s)) @ [()] \<and>
            pom_errors (the_pom st' s) = pom_errors (the_pom st s)) \<and>
         ((\<forall>q \<in> set (bom_subscriptions (the_bom st b)). has_room st q) \<longrightarrow>
            (\<exists>st'. flushToBroker b st = Done st'))"
proof -
  let ?subs = "bom_subscriptions (the_bom st b)"
  have flush: "flushToBroker b st = flush_subscriptions b (Some r) ?subs st"
    using commit by (simp add: flushToBroker_def)
  have part1: "s \<notin> set (bom_subscriptions (the_bom st' b)) \<and>
            buf (pom_rebalance (the_pom st' s)) = buf (pom_rebalance (the_pom st s)) @ [()] \<and>
            pom_errors (the_pom st' s) = pom_errors (the_pom st s)"
    if fin: "flushToBroker b st = Done st'" for st'
  proof -
    from sub obtain xs ys where split: "?subs = xs @ s # ys"
      by (auto dest: split_list)
    with dist have nxs: "s \<notin> set xs" and nys: "s \<notin> set ys" by auto
    have "flush_subscriptions b (Some r) (xs @ s # ys) st = Done st'"
      using fin flush split by simp
    then obtain st1 where
      1: "flush_subscriptions b (Some r) xs st = Done st1"
      and 23: "flush_subscriptions b (Some r) (s # ys) st1 = Done st'"
      unfolding flush_subscriptions_append obind_Done by blast
    from 23 obtain st2 where
      2: "flush_subscription b (Some r) s st1 = Done st2"
      and 3: "flush_subscriptions b (Some r) ys st2 = Done st'"
      by (auto simp: obind_Done)
    have p1: "the_pom st1 s = the_pom st s"
      using flush_subscriptions_other_pom [OF 1 nxs] .
    have c1: "links_kept st st1"
      using flush_subscriptions_links_kept [OF 1] .
    have v1: "s < length (heap_poms st1)" "b < length (heap_boms st1)"
      using c1 valid by (simp_all add: links_kept_def)
    have m: "s \<notin> set (bom_subscriptions (the_bom st2 b)) \<and>
         buf (pom_rebalance (the_pom st2 s)) = buf (pom_rebalance (the_pom st1 s)) @ [()] \<and>
         pom_errors (the_pom st2 s) = pom_errors (the_pom st1 s) \<and> logged st2 = logged st1"
      using flush_subscription_moved [OF _ _ code(3) v1 2, of te] code(1,2) p1 by simp
    have p3: "the_pom st' s = the_pom st2 s"
      using flush_subscriptions_other_pom [OF 3 nys] .
    have "set (bom_subscriptions (the_bom st' b)) \<subseteq> set (bom_subscriptions (the_bom st2 b))"
      using flush_subscriptions_subscriptions [OF 3] .
    with m p1 p3 show ?thesis by auto
  qed
  have part2: "\<exists>st'. flushToBroker b st = Done st'"
    if "\<forall>q \<in> set ?subs. has_room st q"
    using flush_subscriptions_returns [OF dist that] flush by simp
  from part1 part2 show ?thesis by blast
qed


text \<open>
  Scenario C: the commit response says "not leader for partition" for the one
  subscribed manager.
\<close>

theorem flushToBroker_coordinator_moved_witness:
  "\<exists>st'. flushToBroker 0 (example_managed\<lparr>om_client := example_not_leader_client\<rparr>) = Done st' \<and>
         0 \<notin> set (bom_subscriptions (the_bom st' 0)) \<and>
         buf (pom_rebalance (the_pom st' 0)) = [()] \<and>
         buf (pom_errors (the_pom st' 0)) = []"
proof -
  let ?st = "example_managed\<lparr>om_client := example_not_leader_client\<rparr>"
  let ?r = "\<lparr>response_Errors = (\<lambda>t. Some (\<lambda>p. Some ErrNotLeaderForPartition))\<rparr>"
  have commit: "CommitOffset (om_client ?st) (bom_broker (the_bom ?st 0)) (constructRequest 0 ?st) =
                  (Some ?r, None)"
    by (simp add: example_not_leader_client_def example_defs)
  have sub: "0 \<in> set (bom_subscriptions (the_bom ?st 0))"
    and dist: "distinct (bom_subscriptions (the_bom ?st 0))"
    by (simp_all add: example_defs heap_defs)
  have valid: "0 < length (heap_poms ?st)" "0 < length (heap_boms ?st)"
    by (simp_all add: example_defs)
  have code: "response_Errors ?r (pom_topic (the_pom ?st 0)) = Some (\<lambda>p. Some ErrNotLeaderForPartition)"
    "(\<lambda>p. Some ErrNotLeaderForPartition) (pom_partition (the_pom ?st 0)) = Some ErrNotLeaderForPartition"
    "ErrNotLeaderForPartition \<in> {ErrUnknownTopicOrPartition, ErrNotLeaderForPartition, ErrLeaderNotAvailable}"
    by simp_all
  have room: "\<forall>q \<in> set (bom_subscriptions (the_bom ?st 0)). has_room ?st q"
    by (simp add: has_room_def example_defs heap_defs)
  note main = flushToBroker_coordinator_moved [OF commit sub dist valid code]
  from main room obtain st' where d: "flushToBroker 0 ?st = Done st'"
    by blast
  with main have "0 \<notin> set (bom_subscriptions (the_bom st' 0)) \<and>
      buf (pom_rebalance (the_pom st' 0)) = buf (pom_rebalance (the_pom ?st 0)) @ [()] \<and>
      pom_errors (the_pom st' 0) = pom_errors (the_pom ?st 0)"
    by blast
  then have "0 \<notin> set (bom_subscriptions (the_bom st' 0)) \<and>
      buf (pom_rebalance (the_pom st' 0)) = [()] \<and> buf (pom_errors (the_pom st' 0)) = []"
    by (simp add: example_defs heap_defs)
  with d show ?thesis by blast
qed

section \<open>The flush on a transport failure\<close>

lemmas abort_example_defs = example_commit_fails_client_def example_orders1_def example_two_def
  example_aborting_def example_detached_def

lemmas bom_defs = flushToBroker_def constructRequest_def AddBlock_def abort_def abandonBroker_def
  flush_subscription_def delete_subscription_def bom_mainLoop_def pom_mainLoop_def

lemma flush_subscriptions_nil_response:
  "ss \<noteq> [] \<Longrightarrow> flush_subscriptions b None ss st = Panicked ''nil pointer dereference'' st"
  by (cases ss) (simp_all add: flush_subscription_def)

lemma abort_subscriptions_boms:
  "abort_subscriptions e ps st = Done st' \<Longrightarrow> heap_boms st' = heap_boms st"
  by (induction ps arbitrary: st)
     (auto simp: obind_Done dest!: handleError_boms send_rebalance_boms)

lemma abort_newSubscriptions_subscriptions:
  "abort_newSubscriptions b e ss st = Done st' \<Longrightarrow>
     bom_subscriptions (the_bom st' b) = bom_subscriptions (the_bom st b)"
proof (induction ss arbitrary: st)
  case Nil
  then show ?case by (auto split: if_splits)
next
  case (Cons s ss)
  from Cons.prems obtain s1 s2 where
    1: "handleError s e (upd_bom b (\<lambda>m. m\<lparr>bom_newSubscriptions := ss\<rparr>) st) = Done s1"
    and 2: "send_rebalance s s1 = Done s2"
    and 3: "abort_newSubscriptions b e ss s2 = Done st'"
    by (auto simp: obind_Done)
  have "the_bom s2 b = the_bom (upd_bom b (\<lambda>m. m\<lparr>bom_newSubscriptions := ss\<rparr>) st) b"
    using handleError_boms [OF 1] send_rebalance_boms [OF 2] by (simp add: the_bom_def)
  then have "bom_subscriptions (the_bom s2 b) = bom_subscriptions (the_bom st b)"
    by (simp add: heap_simps)
  with Cons.IH [OF 3] show ?case by simp
qed

lemma abort_subscriptions_kept:
  assumes "abort b e st = Done st'"
  shows "bom_subscriptions (the_bom st' b) = bom_subscriptions (the_bom st b)"
proof -
  let ?st1 = "abandonBroker b st"
  let ?st2 = "?st1\<lparr>closed_brokers := insert (bom_broker (the_bom ?st1 b)) (closed_brokers ?st1)\<rparr>"
  from assms obtain st3 where
    3: "abort_subscriptions e (bom_subscriptions (the_bom ?st2 b)) ?st2 = Done st3"
    and 4: "abort_newSubscriptions b e (bom_newSubscriptions (the_bom st3 b)) st3 = Done st'"
    by (auto simp: abort_def Let_def obind_Done)
  have "the_bom st3 b = the_bom st b"
    using abort_subscriptions_boms [OF 3] by (simp add: the_bom_def abandonBroker_def)
  with abort_newSubscriptions_subscriptions [OF 4] show ?thesis by simp
qed

text \<open>
  With a transport failure and a nil response, a flush of a broker manager that has a
  subscription never returns: it waits in abort, or panics in the loop after it.
\<close>

lemma flushToBroker_transport_failure_no_return:
  assumes "CommitOffset (om_client st) (bom_broker (the_bom st b)) (constructRequest b st) = (None, Some e)"
    and "bom_subscriptions (the_bom st b) \<noteq> []"
  shows "flushToBroker b st \<noteq> Done st'"
proof
  assume d: "flushToBroker b st = Done st'"
  then obtain st1 where a: "abort b e st = Done st1"
    and f: "flush_subscriptions b None (bom_subscriptions (the_bom st1 b)) st1 = Done st'"
    using assms(1) by (auto simp: flushToBroker_def obind_Done)
  have "bom_subscriptions (the_bom st1 b) \<noteq> []"
    using abort_subscriptions_kept [OF a] assms(2) by simp
  from flush_subscriptions_nil_response [OF this] f show False by simp
qed

text \<open>
  Claim C2. On a transport failure of the commit, abort removes the broker manager from
  the registry, closes the connection and gives the error and a rebalance signal to
  the subscribed and to the waiting partition manager, and then waits in its second
  loop until the attach channel is closed (\<open>example_aborting\<close>). Once both partition
  managers have re-resolved the coordinator and the channel is closed
  (\<open>example_detached\<close>), the rest of flushToBroker runs: abort returns, and as there is
  no return after the call of abort, the loop over the subscriptions reads the nil
  response and panics.
\<close>

theorem flushToBroker_transport_failure_goes_on:
  "flushToBroker 0 example_two = Blocked example_aborting \<and>
   run [PomLoop 0, PomLoop 1] example_aborting = Some example_detached \<and>
   obind (abort_newSubscriptions 0 (ErrExternal ''EOF'')
            (bom_newSubscriptions (the_bom example_detached 0)) example_detached)
     (\<lambda>st1. flush_subscriptions 0 None (bom_subscriptions (the_bom st1 0)) st1) =
     Panicked ''nil pointer dereference'' example_detached"
proof -
  have 1: "flushToBroker 0 example_two = Blocked example_aborting"
    by (simp add: abort_example_defs example_defs bom_defs pom_defs heap_defs)
  have 2: "run [PomLoop 0, PomLoop 1] example_aborting = Some example_detached"
    by (simp add: abort_example_defs example_defs bom_defs pom_defs heap_defs)
  have 3: "obind (abort_newSubscriptions 0 (ErrExternal ''EOF'')
                    (bom_newSubscriptions (the_bom example_detached 0)) example_detached)
             (\<lambda>st1. flush_subscriptions 0 None (bom_subscriptions (the_bom st1 0)) st1) =
           Panicked ''nil pointer dereference'' example_detached"
    by (simp add: abort_example_defs example_defs bom_defs heap_defs)
  from 1 2 3 show ?thesis by blast
qed

section \<open>Invariants under the operations\<close>

lemma pointing_alt:
  "pointing st b = length (filter (\<lambda>x. x = Some b) (map pom_broker (heap_poms st)))"
  by (simp add: pointing_def filter_map o_def)

lemma links_kept_brokers:
  assumes "links_kept st st'"
  shows "map pom_broker (heap_poms st') = map pom_broker (heap_poms st)"
proof (rule nth_equalityI)
  show "length (map pom_broker (heap_poms st')) = length (map pom_broker (heap_poms st))"
    using assms by (simp add: links_kept_def)
next
  fix i assume "i < length (map pom_broker (heap_poms st'))"
  then have "i < length (heap_poms st')" and "i < length (heap_poms st)"
    using assms by (simp_all add: links_kept_def)
  moreover have "pom_broker (the_pom st' i) = pom_broker (the_pom st i)"
    using assms by (simp add: links_kept_def)
  ultimately show "map pom_broker (heap_poms st') ! i = map pom_broker (heap_poms st) ! i"
    by (simp add: the_pom_def)
qed

lemma links_kept_pointing: "links_kept st st' \<Longrightarrow> pointing st' b = pointing st b"
  by (simp add: pointing_alt links_kept_brokers)

lemma links_kept_refs_inv:
  assumes "links_kept st st'" and "refs_inv st"
  shows "refs_inv st'"
  unfolding refs_inv_def
proof (intro conjI allI impI)
  fix pom bom assume "pom < length (heap_poms st')" "pom_broker (the_pom st' pom) = Some bom"
  then show "bom < length (heap_boms st')"
    using assms by (simp add: links_kept_def refs_inv_def)
next
  fix broker bom assume "om_boms st' broker = Some bom"
  then have "om_boms st broker = Some bom" using assms(1) by (simp add: links_kept_def)
  then show "bom < length (heap_boms st')"
    using assms by (auto simp: links_kept_def refs_inv_def)
next
  fix bom assume "bom < length (heap_boms st')"
  then show "bom_refs (the_bom st' bom) = int (pointing st' bom)"
    using assms links_kept_pointing [OF assms(1)] by (simp add: links_kept_def refs_inv_def)
qed

lemma links_kept_slot_inv:
  assumes "links_kept st st'" and "slot_inv st"
  shows "slot_inv st'"
  unfolding slot_inv_def
proof (intro allI impI)
  fix pom assume "pom < length (heap_poms st')"
  then have p: "pom < length (heap_poms st)" using assms(1) by (simp add: links_kept_def)
  have "cap (pom_rebalance (the_pom st' pom)) = cap (pom_rebalance (the_pom st pom))"
    and "length (buf (pom_rebalance (the_pom st' pom))) \<le>
            max (length (buf (pom_rebalance (the_pom st pom)))) (cap (pom_rebalance (the_pom st pom)))"
    using assms(1) by (simp_all add: links_kept_def)
  with assms(2) p show "cap (pom_rebalance (the_pom st' pom)) = 1 \<and>
        length (buf (pom_rebalance (the_pom st' pom))) \<le> 1"
    by (auto simp: slot_inv_def)
qed

lemma links_kept_registered: "links_kept st st' \<Longrightarrow> registered st' = registered st"
  by (auto simp: links_kept_def registered_def fun_eq_iff)

lemma links_kept_poms_inv:
  assumes "links_kept st st'" and "poms_inv st"
  shows "poms_inv st'"
  using assms by (simp add: poms_inv_def links_kept_registered) (simp add: links_kept_def)


lemma count_list_update:
  "i < length xs \<Longrightarrow>
     int (length (filter P (xs[i := y]))) =
       int (length (filter P xs)) - (if P (xs ! i) then 1 else 0) + (if P y then 1 else 0)"
proof (induction xs arbitrary: i)
  case Nil
  then show ?case by simp
next
  case (Cons x xs)
  show ?case
  proof (cases i)
    case 0
    then show ?thesis by simp
  next
    case (Suc n)
    with Cons.prems have "n < length xs" by simp
    from Cons.IH [OF this] Suc show ?thesis by (auto split: if_splits)
  qed
qed

lemma pointing_upd_pom:
  assumes "p < length (heap_poms st)"
  shows "int (pointing (upd_pom p f st) b) =
           int (pointing st b) - (if pom_broker (the_pom st p) = Some b then 1 else 0)
             + (if pom_broker (f (the_pom st p)) = Some b then 1 else 0)"
  using count_list_update [OF assms, of "\<lambda>m. pom_broker m = Some b" "f (heap_poms st ! p)"]
  by (simp add: pointing_def upd_pom_def the_pom_def)

lemma pointing_heap_poms: "heap_poms st' = heap_poms st \<Longrightarrow> pointing st' b = pointing st b"
  by (simp add: pointing_def)

text \<open>What unrefBrokerOffsetManager does when it returns.\<close>

lemma unrefBrokerOffsetManager_Done:
  assumes "unrefBrokerOffsetManager b st = Done st'" and "b < length (heap_boms st)"
  shows "heap_poms st' = heap_poms st"
    and "length (heap_boms st') = length (heap_boms st)"
    and "om_poms st' = om_poms st" and "om_conf st' = om_conf st" and "om_group st' = om_group st"
    and "om_client st' = om_client st"
    and "bom_refs (the_bom st' c) = (if c = b then bom_refs (the_bom st b) - 1 else bom_refs (the_bom st c))"
    and "bom_broker (the_bom st' c) = bom_broker (the_bom st c)"
    and "bom_closed (the_bom st' c) =
           (if c = b then bom_closed (the_bom st b) \<or> bom_refs (the_bom st b) = 1
            else bom_closed (the_bom st c))"
    and "om_boms st' =
           (if bom_refs (the_bom st b) = 1 \<and> om_boms st (bom_broker (the_bom st b)) = Some b
            then (om_boms st)(bom_broker (the_bom st b) := None) else om_boms st)"
  using assms
  by (auto simp: unrefBrokerOffsetManager_def Let_def heap_simps split: if_splits)

text \<open>What refBrokerOffsetManager does.\<close>

lemma refBrokerOffsetManager_existing:
  assumes "om_boms st broker = Some b" and "b < length (heap_boms st)"
  shows "refBrokerOffsetManager broker st =
           (upd_bom b (\<lambda>m. m\<lparr>bom_refs := bom_refs m + 1\<rparr>) st, b)"
  using assms by (simp add: refBrokerOffsetManager_def)

lemma refBrokerOffsetManager_new:
  assumes "om_boms st broker = None"
  shows "refBrokerOffsetManager broker st =
           (st\<lparr>heap_boms := heap_boms st @
                  [\<lparr>bom_broker = broker, bom_timer = True, bom_newSubscriptions = [],
                    bom_closed = False, bom_subscriptions = [], bom_refs = 1\<rparr>],
                om_boms := (om_boms st)(broker \<mapsto> length (heap_boms st))\<rparr>,
            length (heap_boms st))"
  using assms
  by (simp add: refBrokerOffsetManager_def newBrokerOffsetManager_def upd_bom_def)

lemma refs_invD:
  assumes "refs_inv st"
  shows "q < length (heap_poms st) \<Longrightarrow> pom_broker (the_pom st q) = Some c \<Longrightarrow>
           c < length (heap_boms st)"
    and "om_boms st br = Some c \<Longrightarrow> c < length (heap_boms st)"
    and "c < length (heap_boms st) \<Longrightarrow> bom_refs (the_bom st c) = int (pointing st c)"
  using assms unfolding refs_inv_def by blast+

lemma refs_inv_unref_clear:
  assumes inv: "refs_inv st" and p: "p < length (heap_poms st)"
    and pb: "pom_broker (the_pom st p) = Some b"
    and u: "unrefBrokerOffsetManager b st = Done st1"
  shows "refs_inv (upd_pom p (\<lambda>m. m\<lparr>pom_broker := None\<rparr>) st1)"
proof -
  have b: "b < length (heap_boms st)"
    using inv p pb by (auto simp: refs_inv_def)
  note f = unrefBrokerOffsetManager_Done [OF u b]
  let ?st2 = "upd_pom p (\<lambda>m. m\<lparr>pom_broker := None\<rparr>) st1"
  have p1: "p < length (heap_poms st1)" using f(1) p by simp
  have pom1: "the_pom st1 q = the_pom st q" for q using f(1) by (simp add: the_pom_def)
  show ?thesis
    unfolding refs_inv_def
  proof (intro conjI allI impI)
    fix q c assume "q < length (heap_poms ?st2)" "pom_broker (the_pom ?st2 q) = Some c"
    then have "q < length (heap_poms st)" "pom_broker (the_pom st q) = Some c"
      using f(1) by (auto simp: heap_simps pom1 split: if_splits)
    then show "c < length (heap_boms ?st2)"
      using inv f(2) by (auto simp: refs_inv_def heap_simps)
  next
    fix broker c assume "om_boms ?st2 broker = Some c"
    then have "om_boms st broker = Some c"
      using f(10) by (auto simp: heap_simps split: if_splits)
    then show "c < length (heap_boms ?st2)"
      using inv f(2) by (auto simp: refs_inv_def heap_simps)
  next
    fix c assume "c < length (heap_boms ?st2)"
    then have c: "c < length (heap_boms st)" using f(2) by (simp add: heap_simps)
    have "int (pointing ?st2 c) = int (pointing st1 c) - (if pom_broker (the_pom st1 p) = Some c then 1 else 0)"
      using pointing_upd_pom [OF p1, of "\<lambda>m. m\<lparr>pom_broker := None\<rparr>" c] by simp
    also have "\<dots> = int (pointing st c) - (if c = b then 1 else 0)"
      using pointing_heap_poms [OF f(1)] pb by (auto simp: pom1)
    also have "\<dots> = bom_refs (the_bom st1 c)"
      using inv c f(7) [of c] by (auto simp: refs_inv_def)
    finally show "bom_refs (the_bom ?st2 c) = int (pointing ?st2 c)"
      by (simp add: heap_simps)
  qed
qed


lemma refs_inv_ref_set:
  assumes inv: "refs_inv st" and p: "p < length (heap_poms st)"
    and pb: "pom_broker (the_pom st p) = None"
    and r: "refBrokerOffsetManager broker st = (st2, b)"
  shows "refs_inv (upd_pom p (\<lambda>m. m\<lparr>pom_broker := Some b\<rparr>) st2)"
proof (cases "om_boms st broker")
  case None
  let ?n = "length (heap_boms st)"
  let ?new = "\<lparr>bom_broker = broker, bom_timer = True, bom_newSubscriptions = [],
                bom_closed = False, bom_subscriptions = [], bom_refs = 1\<rparr>"
  have st2: "st2 = st\<lparr>heap_boms := heap_boms st @ [?new], om_boms := (om_boms st)(broker \<mapsto> ?n)\<rparr>"
    and b: "b = ?n"
    using r refBrokerOffsetManager_new [OF None] by auto
  let ?st3 = "upd_pom p (\<lambda>m. m\<lparr>pom_broker := Some b\<rparr>) st2"
  have hp: "heap_poms st2 = heap_poms st" by (simp add: st2)
  have p2: "p < length (heap_poms st2)" using p hp by simp
  have pom2: "the_pom st2 q = the_pom st q" for q by (simp add: the_pom_def hp)
  have none: "pointing st ?n = 0"
  proof -
    have "pom_broker m \<noteq> Some ?n" if "m \<in> set (heap_poms st)" for m
    proof
      assume m: "pom_broker m = Some ?n"
      from that obtain i where "i < length (heap_poms st)" "heap_poms st ! i = m"
        by (auto simp: in_set_conv_nth)
      with inv m have "?n < length (heap_boms st)"
        unfolding refs_inv_def the_pom_def by blast
      then show False by simp
    qed
    then show ?thesis by (simp add: pointing_def filter_empty_conv)
  qed
  show ?thesis
    unfolding refs_inv_def
  proof (intro conjI allI impI)
    fix q c assume "q < length (heap_poms ?st3)" "pom_broker (the_pom ?st3 q) = Some c"
    then have "c = b \<or> (q < length (heap_poms st) \<and> pom_broker (the_pom st q) = Some c)"
      by (auto simp: heap_simps pom2 hp split: if_splits)
    then show "c < length (heap_boms ?st3)"
      using refs_invD(1) [OF inv] b by (auto simp: heap_simps st2 less_Suc_eq)
  next
    fix br c assume "om_boms ?st3 br = Some c"
    then have "c = ?n \<or> om_boms st br = Some c"
      by (auto simp: heap_simps st2 split: if_splits)
    then show "c < length (heap_boms ?st3)"
      using refs_invD(2) [OF inv] by (auto simp: heap_simps st2 less_Suc_eq)
  next
    fix c assume "c < length (heap_boms ?st3)"
    then have c: "c < ?n \<or> c = ?n" by (auto simp: heap_simps st2)
    have cnt: "int (pointing ?st3 c) = int (pointing st c) + (if c = b then 1 else 0)"
      using pointing_upd_pom [OF p2, of "\<lambda>m. m\<lparr>pom_broker := Some b\<rparr>" c] pb
        pointing_heap_poms [OF hp] by (simp add: pom2)
    have refs: "bom_refs (the_bom ?st3 c) = (if c = ?n then 1 else bom_refs (the_bom st c))"
      using c by (auto simp: heap_simps st2 the_bom_def nth_append)
    show "bom_refs (the_bom ?st3 c) = int (pointing ?st3 c)"
      unfolding cnt refs using c refs_invD(3) [OF inv, of c] none b by auto
  qed
next
  case (Some b0)
  have b0: "b0 < length (heap_boms st)" using inv Some by (auto simp: refs_inv_def)
  have st2: "st2 = upd_bom b0 (\<lambda>m. m\<lparr>bom_refs := bom_refs m + 1\<rparr>) st" and b: "b = b0"
    using r refBrokerOffsetManager_existing [OF Some b0] by auto
  let ?st3 = "upd_pom p (\<lambda>m. m\<lparr>pom_broker := Some b\<rparr>) st2"
  have hp: "heap_poms st2 = heap_poms st" by (simp add: st2 heap_simps)
  have p2: "p < length (heap_poms st2)" using p hp by simp
  have pom2: "the_pom st2 q = the_pom st q" for q by (simp add: the_pom_def hp)
  show ?thesis
    unfolding refs_inv_def
  proof (intro conjI allI impI)
    fix q c assume "q < length (heap_poms ?st3)" "pom_broker (the_pom ?st3 q) = Some c"
    then have "c = b \<or> (q < length (heap_poms st) \<and> pom_broker (the_pom st q) = Some c)"
      by (auto simp: heap_simps pom2 hp split: if_splits)
    then show "c < length (heap_boms ?st3)"
      using refs_invD(1) [OF inv] b b0 by (auto simp: heap_simps st2)
  next
    fix br c assume "om_boms ?st3 br = Some c"
    then have "om_boms st br = Some c"
      by (auto simp: heap_simps st2)
    then show "c < length (heap_boms ?st3)"
      using refs_invD(2) [OF inv] by (auto simp: heap_simps st2)
  next
    fix c assume "c < length (heap_boms ?st3)"
    then have c: "c < length (heap_boms st)" by (auto simp: heap_simps st2)
    have cnt: "int (pointing ?st3 c) = int (pointing st c) + (if c = b then 1 else 0)"
      using pointing_upd_pom [OF p2, of "\<lambda>m. m\<lparr>pom_broker := Some b\<rparr>" c] pb
        pointing_heap_poms [OF hp] by (simp add: pom2)
    have refs: "bom_refs (the_bom ?st3 c) = (if c = b then bom_refs (the_bom st c) + 1 else bom_refs (the_bom st c))"
      using b0 b by (auto simp: heap_simps st2)
    show "bom_refs (the_bom ?st3 c) = int (pointing ?st3 c)"
      unfolding cnt refs using refs_invD(3) [OF inv c] by auto
  qed
qed

lemma send_newSubscriptions_links_kept:
  "send_newSubscriptions b p st = Done st' \<Longrightarrow> links_kept st st'"
  by (auto simp: send_newSubscriptions_def links_kept_def heap_simps split: if_splits)

lemma selectBroker_release_Done:
  assumes "selectBroker_release p st = Done st1"
  shows "length (heap_poms st1) = length (heap_poms st)"
    and "om_poms st1 = om_poms st" and "om_conf st1 = om_conf st"
    and "om_group st1 = om_group st" and "om_client st1 = om_client st"
    and "pom_topic (the_pom st1 q) = pom_topic (the_pom st q)"
    and "pom_partition (the_pom st1 q) = pom_partition (the_pom st q)"
    and "pom_offset (the_pom st1 q) = pom_offset (the_pom st q)"
    and "pom_metadata (the_pom st1 q) = pom_metadata (the_pom st q)"
    and "pom_errors (the_pom st1 q) = pom_errors (the_pom st q)"
    and "pom_rebalance (the_pom st1 q) = pom_rebalance (the_pom st q)"
    and "p < length (heap_poms st) \<Longrightarrow> pom_broker (the_pom st1 p) = None"
  using assms
  by (auto simp: selectBroker_release_def obind_Done unrefBrokerOffsetManager_def Let_def heap_simps
        split: option.splits if_splits)

lemma selectBroker_attach_Done:
  assumes "selectBroker_attach p broker st = Done (st', e)"
  shows "length (heap_poms st') = length (heap_poms st)"
    and "om_poms st' = om_poms st" and "om_conf st' = om_conf st"
    and "om_group st' = om_group st" and "om_client st' = om_client st"
    and "pom_topic (the_pom st' q) = pom_topic (the_pom st q)"
    and "pom_partition (the_pom st' q) = pom_partition (the_pom st q)"
    and "pom_offset (the_pom st' q) = pom_offset (the_pom st q)"
    and "pom_metadata (the_pom st' q) = pom_metadata (the_pom st q)"
    and "pom_errors (the_pom st' q) = pom_errors (the_pom st q)"
    and "pom_rebalance (the_pom st' q) = pom_rebalance (the_pom st q)"
    and "e = None"
  using assms
  by (auto simp: selectBroker_attach_def obind_Done refBrokerOffsetManager_def
        newBrokerOffsetManager_def send_newSubscriptions_def Let_def heap_simps
        split: option.splits if_splits prod.splits)

text \<open>How a returning selectBroker went.\<close>

lemma selectBroker_Done:
  assumes "selectBroker p st = Done (st', e)"
  shows "\<exists>st1. selectBroker_release p st = Done st1 \<and>
          ((st' = st1 \<and> e \<noteq> None) \<or>
           (\<exists>broker. RefreshCoordinator (om_client st1) (om_group st1) = None \<and>
                     Coordinator (om_client st1) (om_group st1) = Inr broker \<and>
                     selectBroker_attach p broker st1 = Done (st', e)))"
  using assms
  by (auto simp: selectBroker_def obind_Done split: option.splits sum.splits)

lemma selectBroker_pom_fields:
  assumes "selectBroker p st = Done (st', e)"
  shows "length (heap_poms st') = length (heap_poms st)"
    and "om_poms st' = om_poms st" and "om_conf st' = om_conf st"
    and "om_group st' = om_group st" and "om_client st' = om_client st"
    and "pom_topic (the_pom st' q) = pom_topic (the_pom st q)"
    and "pom_partition (the_pom st' q) = pom_partition (the_pom st q)"
    and "pom_offset (the_pom st' q) = pom_offset (the_pom st q)"
    and "pom_metadata (the_pom st' q) = pom_metadata (the_pom st q)"
    and "pom_errors (the_pom st' q) = pom_errors (the_pom st q)"
    and "pom_rebalance (the_pom st' q) = pom_rebalance (the_pom st q)"
proof -
  from selectBroker_Done [OF assms] obtain st1 where r: "selectBroker_release p st = Done st1"
    and a: "(st' = st1 \<and> e \<noteq> None) \<or>
         (\<exists>broker. selectBroker_attach p broker st1 = Done (st', e))"
    by blast
  note r = selectBroker_release_Done [OF r]
  from a have "length (heap_poms st') = length (heap_poms st1) \<and>
      om_poms st' = om_poms st1 \<and> om_conf st' = om_conf st1 \<and>
      om_group st' = om_group st1 \<and> om_client st' = om_client st1 \<and>
      pom_topic (the_pom st' q) = pom_topic (the_pom st1 q) \<and>
      pom_partition (the_pom st' q) = pom_partition (the_pom st1 q) \<and>
      pom_offset (the_pom st' q) = pom_offset (the_pom st1 q) \<and>
      pom_metadata (the_pom st' q) = pom_metadata (the_pom st1 q) \<and>
      pom_errors (the_pom st' q) = pom_errors (the_pom st1 q) \<and>
      pom_rebalance (the_pom st' q) = pom_rebalance (the_pom st1 q)"
    using selectBroker_attach_Done [of p _ st1 st' e] by auto
  then show "length (heap_poms st') = length (heap_poms st)"
    and "om_poms st' = om_poms st" and "om_conf st' = om_conf st"
    and "om_group st' = om_group st" and "om_client st' = om_client st"
    and "pom_topic (the_pom st' q) = pom_topic (the_pom st q)"
    and "pom_partition (the_pom st' q) = pom_partition (the_pom st q)"
    and "pom_offset (the_pom st' q) = pom_offset (the_pom st q)"
    and "pom_metadata (the_pom st' q) = pom_metadata (the_pom st q)"
    and "pom_errors (the_pom st' q) = pom_errors (the_pom st q)"
    and "pom_rebalance (the_pom st' q) = pom_rebalance (the_pom st q)"
    using r(1-5) r(6-11) [of q] by simp_all
qed

lemma selectBroker_release_refs_inv:
  assumes inv: "refs_inv st" and p: "p < length (heap_poms st)"
    and r: "selectBroker_release p st = Done st1"
  shows "refs_inv st1"
proof (cases "pom_broker (the_pom st p)")
  case None
  with r inv show ?thesis by (simp add: selectBroker_release_def)
next
  case (Some b)
  with r obtain s1 where u: "unrefBrokerOffsetManager b st = Done s1"
    and "st1 = upd_pom p (\<lambda>m. m\<lparr>pom_broker := None\<rparr>) s1"
    by (auto simp: selectBroker_release_def obind_Done)
  with refs_inv_unref_clear [OF inv p Some u] show ?thesis by simp
qed

lemma selectBroker_attach_refs_inv:
  assumes inv: "refs_inv st" and p: "p < length (heap_poms st)"
    and pb: "pom_broker (the_pom st p) = None"
    and a: "selectBroker_attach p broker st = Done (st', e)"
  shows "refs_inv st'"
proof -
  obtain st2 b where r: "refBrokerOffsetManager broker st = (st2, b)"
    by (cases "refBrokerOffsetManager broker st")
  with a have
    "send_newSubscriptions b p (upd_pom p (\<lambda>m. m\<lparr>pom_broker := Some b\<rparr>) st2) = Done st'"
    by (auto simp: selectBroker_attach_def obind_Done)
  from links_kept_refs_inv [OF send_newSubscriptions_links_kept [OF this]
      refs_inv_ref_set [OF inv p pb r]]
  show ?thesis .
qed

lemma selectBroker_refs_inv:
  assumes inv: "refs_inv st" and p: "p < length (heap_poms st)"
    and s: "selectBroker p st = Done (st', e)"
  shows "refs_inv st'"
proof -
  from selectBroker_Done [OF s] obtain st1 where r: "selectBroker_release p st = Done st1"
    and a: "(st' = st1 \<and> e \<noteq> None) \<or>
         (\<exists>broker. selectBroker_attach p broker st1 = Done (st', e))"
    by blast
  have inv1: "refs_inv st1" by (rule selectBroker_release_refs_inv [OF inv p r])
  have p1: "p < length (heap_poms st1)" using selectBroker_release_Done(1) [OF r] p by simp
  have pb1: "pom_broker (the_pom st1 p) = None" by (rule selectBroker_release_Done(12) [OF r p])
  from a inv1 selectBroker_attach_refs_inv [OF inv1 p1 pb1] show ?thesis by blast
qed

lemma pom_eqI:
  fixes m m' :: partitionOffsetManager
  assumes "pom_topic m' = pom_topic m" "pom_partition m' = pom_partition m"
    "pom_offset m' = pom_offset m" "pom_metadata m' = pom_metadata m"
    "pom_broker m' = pom_broker m" "pom_errors m' = pom_errors m"
    "pom_rebalance m' = pom_rebalance m"
  shows "m' = m"
  using assms by (intro partitionOffsetManager.equality) simp_all

lemma selectBroker_release_other_broker:
  "selectBroker_release p st = Done st1 \<Longrightarrow> q \<noteq> p \<Longrightarrow>
     pom_broker (the_pom st1 q) = pom_broker (the_pom st q)"
  by (auto simp: selectBroker_release_def obind_Done unrefBrokerOffsetManager_def Let_def heap_simps
        split: option.splits if_splits)

lemma selectBroker_attach_other_broker:
  "selectBroker_attach p broker st = Done (st', e) \<Longrightarrow> q \<noteq> p \<Longrightarrow>
     pom_broker (the_pom st' q) = pom_broker (the_pom st q)"
  by (auto simp: selectBroker_attach_def obind_Done refBrokerOffsetManager_def
        newBrokerOffsetManager_def send_newSubscriptions_def Let_def heap_simps
        split: option.splits if_splits prod.splits)

lemma selectBroker_other_pom:
  assumes "selectBroker p st = Done (st', e)" and "q \<noteq> p"
  shows "the_pom st' q = the_pom st q"
proof -
  from selectBroker_Done [OF assms(1)] obtain st1 where r: "selectBroker_release p st = Done st1"
    and a: "(st' = st1 \<and> e \<noteq> None) \<or>
         (\<exists>broker. selectBroker_attach p broker st1 = Done (st', e))"
    by blast
  have "pom_broker (the_pom st' q) = pom_broker (the_pom st1 q)"
    using a selectBroker_attach_other_broker [OF _ assms(2)] by auto
  then have "pom_broker (the_pom st' q) = pom_broker (the_pom st q)"
    using selectBroker_release_other_broker [OF r assms(2)] by simp
  with selectBroker_pom_fields(6-11) [OF assms(1), of q] show ?thesis
    by (intro pom_eqI) simp_all
qed

lemma slot_inv_fields:
  assumes "slot_inv st" and "length (heap_poms st') = length (heap_poms st)"
    and "\<And>q. pom_rebalance (the_pom st' q) = pom_rebalance (the_pom st q)"
  shows "slot_inv st'"
  using assms by (simp add: slot_inv_def)

lemma poms_inv_fields:
  assumes "poms_inv st" and "length (heap_poms st) \<le> length (heap_poms st')"
    and "om_poms st' = om_poms st"
    and "\<And>q. q < length (heap_poms st) \<Longrightarrow> pom_topic (the_pom st' q) = pom_topic (the_pom st q)"
    and "\<And>q. q < length (heap_poms st) \<Longrightarrow> pom_partition (the_pom st' q) = pom_partition (the_pom st q)"
  shows "poms_inv st'"
  unfolding poms_inv_def
proof (intro allI impI)
  fix topic partn pom assume "registered st' topic partn = Some pom"
  then have "registered st topic partn = Some pom"
    using assms(3) by (simp add: registered_def)
  then have "pom < length (heap_poms st) \<and> pom_topic (the_pom st pom) = topic \<and>
      pom_partition (the_pom st pom) = partn"
    using assms(1) by (simp add: poms_inv_def)
  then show "pom < length (heap_poms st') \<and> pom_topic (the_pom st' pom) = topic \<and>
      pom_partition (the_pom st' pom) = partn"
    using assms(2,4,5) by auto
qed

lemma selectBroker_slot_inv:
  assumes "slot_inv st" and "selectBroker p st = Done (st', e)"
  shows "slot_inv st'"
  using assms(1) selectBroker_pom_fields(1,11) [OF assms(2)] by (rule slot_inv_fields)

lemma selectBroker_poms_inv:
  assumes "poms_inv st" and "selectBroker p st = Done (st', e)"
  shows "poms_inv st'"
  using assms(1) selectBroker_pom_fields(1,2,6,7) [OF assms(2)]
  by (intro poms_inv_fields [of st st']) simp_all

lemma fetchInitialOffset_links_kept:
  "fetchInitialOffset p st = Done (st', e) \<Longrightarrow> links_kept st st'"
  by (auto simp: fetchInitialOffset_def Let_def links_kept_def heap_simps
        split: option.splits prod.splits if_splits KError.splits)

text \<open>The allocation at the head of newPartitionOffsetManager.\<close>

lemma alloc_pom:
  fixes new :: partitionOffsetManager
  defines "st0 \<equiv> \<lambda>st new. st\<lparr>heap_poms := heap_poms st @ [new]\<rparr>"
  shows "q < length (heap_poms st) \<Longrightarrow> the_pom (st0 st new) q = the_pom st q"
    and "the_pom (st0 st new) (length (heap_poms st)) = new"
    and "the_bom (st0 st new) b = the_bom st b"
    and "pom_broker new = None \<Longrightarrow> pointing (st0 st new) b = pointing st b"
  by (simp_all add: st0_def the_pom_def the_bom_def nth_append pointing_def)

lemma alloc_refs_inv:
  assumes "refs_inv st" and "pom_broker new = None"
  shows "refs_inv (st\<lparr>heap_poms := heap_poms st @ [new]\<rparr>)"
  unfolding refs_inv_def
proof (intro conjI allI impI)
  fix q c assume "q < length (heap_poms (st\<lparr>heap_poms := heap_poms st @ [new]\<rparr>))"
    and "pom_broker (the_pom (st\<lparr>heap_poms := heap_poms st @ [new]\<rparr>) q) = Some c"
  then have "q < length (heap_poms st)" "pom_broker (the_pom st q) = Some c"
    using assms(2) by (auto simp: the_pom_def nth_append less_Suc_eq split: if_splits)
  then show "c < length (heap_boms (st\<lparr>heap_poms := heap_poms st @ [new]\<rparr>))"
    using refs_invD(1) [OF assms(1)] by simp
next
  fix br c assume "om_boms (st\<lparr>heap_poms := heap_poms st @ [new]\<rparr>) br = Some c"
  then show "c < length (heap_boms (st\<lparr>heap_poms := heap_poms st @ [new]\<rparr>))"
    using refs_invD(2) [OF assms(1)] by simp
next
  fix c assume "c < length (heap_boms (st\<lparr>heap_poms := heap_poms st @ [new]\<rparr>))"
  then show "bom_refs (the_bom (st\<lparr>heap_poms := heap_poms st @ [new]\<rparr>) c) =
      int (pointing (st\<lparr>heap_poms := heap_poms st @ [new]\<rparr>) c)"
    using refs_invD(3) [OF assms(1), of c] alloc_pom(3) [of st new c] alloc_pom(4) [OF assms(2), of st c]
    by simp
qed

lemma alloc_slot_inv:
  assumes "slot_inv st" and "pom_rebalance new = make_chan 1"
  shows "slot_inv (st\<lparr>heap_poms := heap_poms st @ [new]\<rparr>)"
  using assms
  by (auto simp: slot_inv_def the_pom_def nth_append make_chan_def less_Suc_eq)

lemma alloc_poms_inv:
  assumes "poms_inv st"
  shows "poms_inv (st\<lparr>heap_poms := heap_poms st @ [new]\<rparr>)"
  using assms by (rule poms_inv_fields) (simp_all add: alloc_pom(1))

lemma fetchInitialOffset_other_pom:
  "fetchInitialOffset p st = Done (st', e) \<Longrightarrow> q \<noteq> p \<Longrightarrow> the_pom st' q = the_pom st q"
  by (auto simp: fetchInitialOffset_def Let_def heap_simps
        split: option.splits prod.splits if_splits KError.splits)

text \<open>When a call followed by a function of its state and result returns.\<close>

lemma obind_Done_pair:
  "obind m (\<lambda>(s, x). f s x) = Done y \<longleftrightarrow> (\<exists>s x. m = Done (s, x) \<and> f s x = Done y)"
  by (cases m) auto

text \<open>How a returning newPartitionOffsetManager went.\<close>

lemma newPartitionOffsetManager_Done:
  assumes "newPartitionOffsetManager topic partn st = Done (st', r)"
  shows "\<exists>st1 e1.
           selectBroker (length (heap_poms st))
             (st\<lparr>heap_poms := heap_poms st @
                  [\<lparr>pom_topic = topic, pom_partition = partn, pom_offset = 0, pom_metadata = [],
                    pom_broker = None,
                    pom_errors = make_chan (ChannelBufferSize (om_conf st)),
                    pom_rebalance = make_chan 1\<rparr>]\<rparr>) = Done (st1, e1) \<and>
           ((\<exists>e. e1 = Some e \<and> st' = st1 \<and> r = Inl e) \<or>
            (e1 = None \<and>
             (\<exists>e2. fetchInitialOffset (length (heap_poms st)) st1 = Done (st', e2) \<and>
                   r = (case e2 of Some e \<Rightarrow> Inl e | None \<Rightarrow> Inr (length (heap_poms st))))))"
proof -
  let ?p = "length (heap_poms st)"
  from assms obtain st1 e1 where
    sel: "selectBroker ?p
             (st\<lparr>heap_poms := heap_poms st @
                  [\<lparr>pom_topic = topic, pom_partition = partn, pom_offset = 0, pom_metadata = [],
                    pom_broker = None,
                    pom_errors = make_chan (ChannelBufferSize (om_conf st)),
                    pom_rebalance = make_chan 1\<rparr>]\<rparr>) = Done (st1, e1)"
    and rest: "(case e1 of
              Some e \<Rightarrow> Done (st1, Inl e)
            | None \<Rightarrow>
                obind (fetchInitialOffset ?p st1)
                  (\<lambda>(st2, err). case err of
                     Some e \<Rightarrow> Done (st2, Inl e)
                   | None \<Rightarrow> Done (st2, Inr ?p))) = Done (st', r)"
    unfolding newPartitionOffsetManager_def Let_def obind_Done_pair by blast
  show ?thesis
  proof (cases e1)
    case None
    with rest obtain x where f0: "fetchInitialOffset ?p st1 = Done x"
      and r0: "(case x of (s2, e2) \<Rightarrow>
                 (case e2 of Some e \<Rightarrow> Done (s2, Inl e) | None \<Rightarrow> Done (s2, Inr ?p))) = Done (st', r)"
      by (auto simp: obind_Done)
    obtain s2 e2 where x: "x = (s2, e2)" by (cases x)
    from f0 x have f: "fetchInitialOffset ?p st1 = Done (s2, e2)" by simp
    from r0 x have
      r2: "(case e2 of Some e \<Rightarrow> Done (s2, Inl e) | None \<Rightarrow> Done (s2, Inr ?p)) = Done (st', r)"
      by simp
    from r2 have "s2 = st'" and "r = (case e2 of Some e \<Rightarrow> Inl e | None \<Rightarrow> Inr ?p)"
      by (cases e2; simp)+
    with f sel None show ?thesis by blast
  next
    case (Some e)
    with rest sel show ?thesis by auto
  qed
qed

lemma newPartitionOffsetManager_facts:
  assumes "newPartitionOffsetManager topic partn st = Done (st', r)"
  shows "length (heap_poms st') = Suc (length (heap_poms st))"
    and "om_poms st' = om_poms st"
    and "q < length (heap_poms st) \<Longrightarrow> the_pom st' q = the_pom st q"
    and "pom_topic (the_pom st' (length (heap_poms st))) = topic"
    and "pom_partition (the_pom st' (length (heap_poms st))) = partn"
    and "r = Inr x \<Longrightarrow> x = length (heap_poms st)"
    and "refs_inv st \<Longrightarrow> refs_inv st'"
    and "slot_inv st \<Longrightarrow> slot_inv st'"
    and "poms_inv st \<Longrightarrow> poms_inv st'"
proof -
  let ?p = "length (heap_poms st)"
  let ?new = "\<lparr>pom_topic = topic, pom_partition = partn, pom_offset = 0, pom_metadata = [],
                pom_broker = None,
                pom_errors = make_chan (ChannelBufferSize (om_conf st)),
                pom_rebalance = make_chan 1\<rparr>"
  let ?st0 = "st\<lparr>heap_poms := heap_poms st @ [?new]\<rparr>"
  from newPartitionOffsetManager_Done [OF assms] obtain st1 e1 where
    sel: "selectBroker ?p ?st0 = Done (st1, e1)"
    and rest: "(\<exists>e. e1 = Some e \<and> st' = st1 \<and> r = Inl e) \<or>
            (e1 = None \<and>
             (\<exists>e2. fetchInitialOffset ?p st1 = Done (st', e2) \<and>
                   r = (case e2 of Some e \<Rightarrow> Inl e | None \<Rightarrow> Inr ?p)))"
    by blast
  have lk: "links_kept st1 st'"
    using rest fetchInitialOffset_links_kept by (auto intro: links_kept_refl)
  note f = selectBroker_pom_fields [OF sel]
  have p0: "?p < length (heap_poms ?st0)" by simp
  show "length (heap_poms st') = Suc (length (heap_poms st))"
    using lk f(1) by (simp add: links_kept_def)
  show "om_poms st' = om_poms st"
    using lk f(2) by (simp add: links_kept_def)
  show "the_pom st' q = the_pom st q" if "q < length (heap_poms st)"
  proof -
    have "the_pom st' q = the_pom st1 q"
      using rest fetchInitialOffset_other_pom [of ?p st1 st' _ q] that by auto
    also have "\<dots> = the_pom ?st0 q"
      using selectBroker_other_pom [OF sel, of q] that by simp
    also have "\<dots> = the_pom st q"
      using alloc_pom(1) [OF that] .
    finally show ?thesis .
  qed
  show "pom_topic (the_pom st' ?p) = topic"
    using lk f(6) [of ?p] alloc_pom(2) [of st ?new] by (simp add: links_kept_def)
  show "pom_partition (the_pom st' ?p) = partn"
    using lk f(7) [of ?p] alloc_pom(2) [of st ?new] by (simp add: links_kept_def)
  show "x = ?p" if "r = Inr x"
    using rest that by (auto split: option.splits)
  show "refs_inv st'" if "refs_inv st"
    using links_kept_refs_inv [OF lk selectBroker_refs_inv [OF alloc_refs_inv [OF that] p0 sel]]
    by simp
  show "slot_inv st'" if "slot_inv st"
    using links_kept_slot_inv [OF lk selectBroker_slot_inv [OF alloc_slot_inv [OF that] sel]]
    by simp
  show "poms_inv st'" if "poms_inv st"
    using links_kept_poms_inv [OF lk selectBroker_poms_inv [OF alloc_poms_inv [OF that] sel]] .
qed

lemma registered_om_poms_upd:
  "registered (st\<lparr>om_poms := (om_poms st)(topic \<mapsto> tm)\<rparr>) t pt =
     (if t = topic then tm pt else registered st t pt)"
  by (simp add: registered_def)





text \<open>The section of ManagePartition under the lock.\<close>

lemma ManagePartition_register_cases:
  assumes "ManagePartition_register topic partn pom st1 = (st', r)"
  shows "(registered st1 topic partn \<noteq> None \<and>
          r = Inl (ConfigurationError ''That topic/partition is already being managed'') \<and>
          st' = st1) \<or>
         (registered st1 topic partn = None \<and> r = Inr pom \<and>
          (\<exists>X. st' = st1\<lparr>om_poms := X\<rparr>) \<and>
          (\<forall>t pt. registered st' t pt =
                   (if t = topic \<and> pt = partn then Some pom else registered st1 t pt)))"
proof (cases "om_poms st1 topic")
  case None
  with assms have st': "st' = st1\<lparr>om_poms := (om_poms st1)(topic \<mapsto> [partn \<mapsto> pom])\<rparr>"
    and r: "r = Inr pom"
    by (auto simp: ManagePartition_register_def)
  have "registered st1 topic partn = None" using None by (simp add: registered_def)
  moreover have "\<forall>t pt. registered st' t pt =
                  (if t = topic \<and> pt = partn then Some pom else registered st1 t pt)"
    using None by (simp add: st' registered_def)
  moreover have "\<exists>X. st' = st1\<lparr>om_poms := X\<rparr>"
    by (rule exI) (rule st')
  ultimately show ?thesis using r by (intro disjI2 conjI)
next
  case (Some tm)
  show ?thesis
  proof (cases "tm partn")
    case None
    with assms Some have st': "st' = st1\<lparr>om_poms := (om_poms st1)(topic \<mapsto> tm(partn \<mapsto> pom))\<rparr>"
      and r: "r = Inr pom"
      by (auto simp: ManagePartition_register_def)
    have "registered st1 topic partn = None" using None Some by (simp add: registered_def)
    moreover have "\<forall>t pt. registered st' t pt =
                  (if t = topic \<and> pt = partn then Some pom else registered st1 t pt)"
      using Some by (simp add: st' registered_def)
    moreover have "\<exists>X. st' = st1\<lparr>om_poms := X\<rparr>"
      by (rule exI) (rule st')
    ultimately show ?thesis using r by (intro disjI2 conjI)
  next
    case old: (Some old)
    with assms Some
    have "st' = st1" and "r = Inl (ConfigurationError ''That topic/partition is already being managed'')"
      by (auto simp: ManagePartition_register_def)
    moreover have "registered st1 topic partn \<noteq> None"
      using old Some by (simp add: registered_def)
    ultimately show ?thesis by (intro disjI1 conjI)
  qed
qed

text \<open>How a returning ManagePartition went.\<close>

lemma ManagePartition_Done:
  assumes "ManagePartition topic partn st = Done (st', r)"
  shows "\<exists>st1 r1. newPartitionOffsetManager topic partn st = Done (st1, r1) \<and>
     ((\<exists>e. r1 = Inl e \<and> r = Inl e \<and> st' = st1) \<or>
      (\<exists>pom. r1 = Inr pom \<and> ManagePartition_register topic partn pom st1 = (st', r)))"
proof -
  from assms obtain x where n0: "newPartitionOffsetManager topic partn st = Done x"
    and rest0: "(case x of (st1, r1) \<Rightarrow> (case r1 of Inl err \<Rightarrow> Done (st1, Inl err)
                | Inr pom \<Rightarrow> Done (ManagePartition_register topic partn pom st1))) = Done (st', r)"
    unfolding ManagePartition_def obind_Done by blast
  obtain st1 r1 where x: "x = (st1, r1)" by (cases x)
  from n0 x have n: "newPartitionOffsetManager topic partn st = Done (st1, r1)" by simp
  from rest0 x have rest: "(case r1 of Inl err \<Rightarrow> Done (st1, Inl err)
                | Inr pom \<Rightarrow> Done (ManagePartition_register topic partn pom st1)) = Done (st', r)"
    by simp
  from rest have "(\<exists>e. r1 = Inl e \<and> r = Inl e \<and> st' = st1) \<or>
      (\<exists>pom. r1 = Inr pom \<and> ManagePartition_register topic partn pom st1 = (st', r))"
    by (cases r1) auto
  with n show ?thesis by blast
qed

lemma ManagePartition_cases:
  assumes "ManagePartition topic partn st = Done (st', r)"
  shows "\<exists>st1 r1. newPartitionOffsetManager topic partn st = Done (st1, r1) \<and>
     ((\<exists>e. r1 = Inl e \<and> r = Inl e \<and> st' = st1) \<or>
      (\<exists>pom. r1 = Inr pom \<and> registered st1 topic partn \<noteq> None \<and>
             r = Inl (ConfigurationError ''That topic/partition is already being managed'') \<and>
             st' = st1) \<or>
      (\<exists>pom X. r1 = Inr pom \<and> registered st1 topic partn = None \<and> r = Inr pom \<and>
             st' = st1\<lparr>om_poms := X\<rparr> \<and>
             (\<forall>t pt. registered st' t pt =
                      (if t = topic \<and> pt = partn then Some pom else registered st1 t pt))))"
proof -
  from ManagePartition_Done [OF assms] obtain st1 r1 where
    n: "newPartitionOffsetManager topic partn st = Done (st1, r1)"
    and c: "(\<exists>e. r1 = Inl e \<and> r = Inl e \<and> st' = st1) \<or>
      (\<exists>pom. r1 = Inr pom \<and> ManagePartition_register topic partn pom st1 = (st', r))"
    by (elim exE conjE)
  let ?D = "(\<exists>e. r1 = Inl e \<and> r = Inl e \<and> st' = st1) \<or>
      (\<exists>pom. r1 = Inr pom \<and> registered st1 topic partn \<noteq> None \<and>
             r = Inl (ConfigurationError ''That topic/partition is already being managed'') \<and>
             st' = st1) \<or>
      (\<exists>pom X. r1 = Inr pom \<and> registered st1 topic partn = None \<and> r = Inr pom \<and>
             st' = st1\<lparr>om_poms := X\<rparr> \<and>
             (\<forall>t pt. registered st' t pt =
                      (if t = topic \<and> pt = partn then Some pom else registered st1 t pt)))"
  from c have ?D
  proof (elim disjE exE conjE)
    fix e assume "r1 = Inl e" "r = Inl e" "st' = st1"
    then show ?D by (intro disjI1 exI conjI)
  next
    fix pom assume r1: "r1 = Inr pom"
      and reg: "ManagePartition_register topic partn pom st1 = (st', r)"
    from ManagePartition_register_cases [OF reg] show ?D
    proof (elim disjE exE conjE)
      assume "registered st1 topic partn \<noteq> None"
        "r = Inl (ConfigurationError ''That topic/partition is already being managed'')" "st' = st1"
      with r1 show ?D by (intro disjI2 disjI1 exI conjI)
    next
      fix X assume "registered st1 topic partn = None" "r = Inr pom" "st' = st1\<lparr>om_poms := X\<rparr>"
        "\<forall>t pt. registered st' t pt =
                 (if t = topic \<and> pt = partn then Some pom else registered st1 t pt)"
      with r1 show ?D by (intro disjI2 exI conjI)
    qed
  qed
  with n show ?thesis by (intro exI conjI)
qed


lemma refs_inv_om_poms: "refs_inv (st\<lparr>om_poms := X\<rparr>) = refs_inv st"
  by (simp add: refs_inv_def pointing_def the_pom_def the_bom_def)

lemma slot_inv_om_poms: "slot_inv (st\<lparr>om_poms := X\<rparr>) = slot_inv st"
  by (simp add: slot_inv_def the_pom_def)

lemma ManagePartition_facts:
  assumes "ManagePartition topic partn st = Done (st', r)"
  shows "length (heap_poms st') = Suc (length (heap_poms st))"
    and "q < length (heap_poms st) \<Longrightarrow> the_pom st' q = the_pom st q"
    and "refs_inv st \<Longrightarrow> refs_inv st'"
    and "slot_inv st \<Longrightarrow> slot_inv st'"
    and "poms_inv st \<Longrightarrow> poms_inv st'"
    and "registered st t pt = Some q \<Longrightarrow> registered st' t pt = Some q"
    and "registered st topic partn \<noteq> None \<Longrightarrow> (\<exists>e. r = Inl e) \<and> om_poms st' = om_poms st"
    and "registered st topic partn \<noteq> None \<Longrightarrow>
           newPartitionOffsetManager topic partn st = Done (st1', Inr pom') \<Longrightarrow>
           r = Inl (ConfigurationError ''That topic/partition is already being managed'')"
proof -
  from ManagePartition_cases [OF assms] obtain st1 r1 where
    n: "newPartitionOffsetManager topic partn st = Done (st1, r1)"
    and D: "(\<exists>e. r1 = Inl e \<and> r = Inl e \<and> st' = st1) \<or>
      (\<exists>pom. r1 = Inr pom \<and> registered st1 topic partn \<noteq> None \<and>
             r = Inl (ConfigurationError ''That topic/partition is already being managed'') \<and>
             st' = st1) \<or>
      (\<exists>pom X. r1 = Inr pom \<and> registered st1 topic partn = None \<and> r = Inr pom \<and>
             st' = st1\<lparr>om_poms := X\<rparr> \<and>
             (\<forall>t pt. registered st' t pt =
                      (if t = topic \<and> pt = partn then Some pom else registered st1 t pt)))"
    by (elim exE conjE)
  note f = newPartitionOffsetManager_facts [OF n]
  have reg1: "registered st1 = registered st"
    using f(2) by (simp add: registered_def fun_eq_iff)
  have heap: "heap_poms st' = heap_poms st1"
    using D by (elim disjE exE conjE) simp_all
  have pom: "the_pom st' x = the_pom st1 x" for x
    using heap by (simp add: the_pom_def)
  show "length (heap_poms st') = Suc (length (heap_poms st))"
    using heap f(1) by simp
  show "the_pom st' q = the_pom st q" if "q < length (heap_poms st)"
    using pom f(3) [OF that] by simp
  show "refs_inv st'" if "refs_inv st"
    using D f(7) [OF that] by (elim disjE exE conjE) (simp_all add: refs_inv_om_poms)
  show "slot_inv st'" if "slot_inv st"
    using D f(8) [OF that] by (elim disjE exE conjE) (simp_all add: slot_inv_om_poms)
  show "poms_inv st'" if inv: "poms_inv st"
    using D
  proof (elim disjE exE conjE)
    fix e assume "st' = st1" then show ?thesis using f(9) [OF inv] by simp
  next
    fix pom assume "st' = st1" then show ?thesis using f(9) [OF inv] by simp
  next
    fix pom X
    assume r1: "r1 = Inr pom"
      and reg: "\<forall>t pt. registered st' t pt = (if t = topic \<and> pt = partn then Some pom else registered st1 t pt)"
    have pomv: "pom = length (heap_poms st)" using f(6) [of pom] r1 by simp
    have inv1: "poms_inv st1" by (rule f(9) [OF inv])
    show ?thesis
      unfolding poms_inv_def
    proof (intro allI impI)
      fix t pt x assume a: "registered st' t pt = Some x"
      show "x < length (heap_poms st') \<and> pom_topic (the_pom st' x) = t \<and>
            pom_partition (the_pom st' x) = pt"
      proof (cases "t = topic \<and> pt = partn")
        case True
        with a reg have "x = pom" by simp
        with True pomv f(1,4,5) heap show ?thesis by (simp add: pom)
      next
        case False
        with a reg have "registered st1 t pt = Some x" by auto
        with inv1 show ?thesis by (simp add: poms_inv_def heap pom)
      qed
    qed
  qed
  show "registered st' t pt = Some q" if "registered st t pt = Some q"
    using D
  proof (elim disjE exE conjE)
    fix e assume "st' = st1" then show ?thesis using that reg1 by simp
  next
    fix pom assume "st' = st1" then show ?thesis using that reg1 by simp
  next
    fix pom X
    assume none: "registered st1 topic partn = None"
      and reg: "\<forall>t pt. registered st' t pt = (if t = topic \<and> pt = partn then Some pom else registered st1 t pt)"
    from none that reg1 have ne: "\<not> (t = topic \<and> pt = partn)" by auto
    from reg have "registered st' t pt =
        (if t = topic \<and> pt = partn then Some pom else registered st1 t pt)" by blast
    with ne that reg1 show ?thesis by auto
  qed
  show "(\<exists>e. r = Inl e) \<and> om_poms st' = om_poms st" if "registered st topic partn \<noteq> None"
    using D that reg1 f(2) by (elim disjE exE conjE) simp_all
  show "r = Inl (ConfigurationError ''That topic/partition is already being managed'')"
    if "registered st topic partn \<noteq> None"
      and "newPartitionOffsetManager topic partn st = Done (st1', Inr pom')"
    using D that n reg1 by (elim disjE exE conjE) simp_all
qed

lemma recv_links_kept:
  assumes "chan_recv (pom_rebalance (the_pom st p)) = Some (u, c)"
  shows "links_kept st (upd_pom p (\<lambda>m. m\<lparr>pom_rebalance := c\<rparr>) st)"
  using assms
  by (auto simp: chan_recv_def links_kept_def heap_simps split: list.splits)

lemma pom_mainLoop_Done:
  assumes "pom_mainLoop p st = Done st'"
  shows "\<exists>c st1 err.
           chan_recv (pom_rebalance (the_pom st p)) = Some ((), c) \<and>
           selectBroker p (upd_pom p (\<lambda>m. m\<lparr>pom_rebalance := c\<rparr>) st) = Done (st1, err) \<and>
           ((err = None \<and> st' = st1) \<or>
            (\<exists>e s2. err = Some e \<and> handleError p e st1 = Done s2 \<and> send_rebalance p s2 = Done st'))"
proof -
  from assms obtain c where r: "chan_recv (pom_rebalance (the_pom st p)) = Some ((), c)"
    and rest: "obind (selectBroker p (upd_pom p (\<lambda>m. m\<lparr>pom_rebalance := c\<rparr>) st))
            (\<lambda>(st1, err). case err of
               None \<Rightarrow> Done st1
             | Some e \<Rightarrow> obind (handleError p e st1) (send_rebalance p)) = Done st'"
    by (auto simp: pom_mainLoop_def split: option.splits)
  from rest obtain x where s0: "selectBroker p (upd_pom p (\<lambda>m. m\<lparr>pom_rebalance := c\<rparr>) st) = Done x"
    and r0: "(case x of (st1, err) \<Rightarrow> (case err of
               None \<Rightarrow> Done st1
             | Some e \<Rightarrow> obind (handleError p e st1) (send_rebalance p))) = Done st'"
    unfolding obind_Done by (elim exE conjE)
  obtain st1 err where x: "x = (st1, err)" by (cases x)
  from s0 x have s: "selectBroker p (upd_pom p (\<lambda>m. m\<lparr>pom_rebalance := c\<rparr>) st) = Done (st1, err)"
    by simp
  from r0 x have "(err = None \<and> st' = st1) \<or>
            (\<exists>e s2. err = Some e \<and> handleError p e st1 = Done s2 \<and> send_rebalance p s2 = Done st')"
    by (cases err) (auto simp: obind_Done)
  with r s show ?thesis by (intro exI conjI)
qed

lemma pom_mainLoop_facts:
  assumes "pom_mainLoop p st = Done st'" and p: "p < length (heap_poms st)"
  shows "length (heap_poms st') = length (heap_poms st)"
    and "om_poms st' = om_poms st"
    and "refs_inv st \<Longrightarrow> refs_inv st'"
    and "slot_inv st \<Longrightarrow> slot_inv st'"
    and "poms_inv st \<Longrightarrow> poms_inv st'"
proof -
  from pom_mainLoop_Done [OF assms(1)] obtain c st1 err where
    r: "chan_recv (pom_rebalance (the_pom st p)) = Some ((), c)"
    and s: "selectBroker p (upd_pom p (\<lambda>m. m\<lparr>pom_rebalance := c\<rparr>) st) = Done (st1, err)"
    and rest: "(err = None \<and> st' = st1) \<or>
            (\<exists>e s2. err = Some e \<and> handleError p e st1 = Done s2 \<and> send_rebalance p s2 = Done st')"
    by (elim exE conjE)
  let ?sr = "upd_pom p (\<lambda>m. m\<lparr>pom_rebalance := c\<rparr>) st"
  have k0: "links_kept st ?sr" by (rule recv_links_kept [OF r])
  have k1: "links_kept st1 st'"
    using rest
  proof (elim disjE exE conjE)
    assume "st' = st1" then show ?thesis by (simp add: links_kept_refl)
  next
    fix e s2 assume "handleError p e st1 = Done s2" "send_rebalance p s2 = Done st'"
    then show ?thesis
      using handleError_links_kept send_rebalance_links_kept links_kept_trans by blast
  qed
  have pr: "p < length (heap_poms ?sr)" using p by (simp add: heap_simps)
  note f = selectBroker_pom_fields [OF s]
  show "length (heap_poms st') = length (heap_poms st)"
    using k0 k1 f(1) by (simp add: links_kept_def)
  show "om_poms st' = om_poms st"
    using k0 k1 f(2) by (simp add: links_kept_def)
  show "refs_inv st'" if "refs_inv st"
    using links_kept_refs_inv [OF k1 selectBroker_refs_inv [OF links_kept_refs_inv [OF k0 that] pr s]] .
  show "slot_inv st'" if "slot_inv st"
    using links_kept_slot_inv [OF k1 selectBroker_slot_inv [OF links_kept_slot_inv [OF k0 that] s]] .
  show "poms_inv st'" if "poms_inv st"
    using links_kept_poms_inv [OF k1 selectBroker_poms_inv [OF links_kept_poms_inv [OF k0 that] s]] .
qed

lemma SetOffset_links_kept: "links_kept st (SetOffset p v st)"
  by (simp add: SetOffset_def links_kept_def heap_simps)

lemma SetMetadata_links_kept: "links_kept st (SetMetadata p v st)"
  by (simp add: SetMetadata_def links_kept_def heap_simps)

lemma Environment_links_kept: "links_kept st (st\<lparr>om_client := c\<rparr>)"
  by (simp add: links_kept_def heap_simps)

text \<open>Every action keeps the three invariants, the managers and their registrations.\<close>

lemma step_facts:
  assumes "enabled a st" and "step a st = Done st'"
  shows "length (heap_poms st) \<le> length (heap_poms st')"
    and "registered st t pt = Some q \<Longrightarrow> registered st' t pt = Some q"
    and "refs_inv st \<Longrightarrow> refs_inv st'"
    and "slot_inv st \<Longrightarrow> slot_inv st'"
    and "poms_inv st \<Longrightarrow> poms_inv st'"
proof -
  have kept: "length (heap_poms st) \<le> length (heap_poms st') \<and>
      (registered st t pt = Some q \<longrightarrow> registered st' t pt = Some q) \<and>
      (refs_inv st \<longrightarrow> refs_inv st') \<and> (slot_inv st \<longrightarrow> slot_inv st') \<and>
      (poms_inv st \<longrightarrow> poms_inv st')" if "links_kept st st'"
    using that links_kept_registered [OF that] links_kept_refs_inv [OF that]
      links_kept_slot_inv [OF that] links_kept_poms_inv [OF that]
    by (simp add: links_kept_def)
  have "length (heap_poms st) \<le> length (heap_poms st') \<and>
      (registered st t pt = Some q \<longrightarrow> registered st' t pt = Some q) \<and>
      (refs_inv st \<longrightarrow> refs_inv st') \<and> (slot_inv st \<longrightarrow> slot_inv st') \<and>
      (poms_inv st \<longrightarrow> poms_inv st')"
  proof (cases a)
    case (DoManagePartition topic partn)
    with assms(2) obtain r where m: "ManagePartition topic partn st = Done (st', r)"
      by (auto simp: obind_Done)
    from ManagePartition_facts(1) [OF m] ManagePartition_facts(3,4,5) [OF m]
      ManagePartition_facts(6) [OF m, of t pt q]
    show ?thesis by simp
  next
    case (DoSetOffset p v)
    with assms(2) SetOffset_links_kept [of st p v] kept show ?thesis by auto
  next
    case (DoSetMetadata p v)
    with assms(2) SetMetadata_links_kept [of st p v] kept show ?thesis by auto
  next
    case (DoClose p)
    with assms(2) kept [OF _] links_kept_refl [of st] show ?thesis
      by (auto simp: Close_def AsyncClose_def)
  next
    case (PomLoop p)
    with assms have m: "pom_mainLoop p st = Done st'" and p: "p < length (heap_poms st)"
      by simp_all
    from pom_mainLoop_facts [OF m p] show ?thesis by (simp add: registered_def)
  next
    case (BomLoop b c)
    with assms(2) obtain go_on where "bom_mainLoop b c st = Done (st', go_on)"
      by (auto simp: obind_Done)
    from kept [OF bom_mainLoop_links_kept [OF this]] show ?thesis .
  next
    case (Environment c)
    with assms(2) Environment_links_kept [of st c] kept show ?thesis by auto
  qed
  then show "length (heap_poms st) \<le> length (heap_poms st')"
    and "registered st t pt = Some q \<Longrightarrow> registered st' t pt = Some q"
    and "refs_inv st \<Longrightarrow> refs_inv st'"
    and "slot_inv st \<Longrightarrow> slot_inv st'"
    and "poms_inv st \<Longrightarrow> poms_inv st'"
    by simp_all
qed


lemma run_facts:
  assumes "run as st = Some st'"
  shows "length (heap_poms st) \<le> length (heap_poms st')"
    and "registered st t pt = Some q \<Longrightarrow> registered st' t pt = Some q"
    and "refs_inv st \<Longrightarrow> refs_inv st'"
    and "slot_inv st \<Longrightarrow> slot_inv st'"
    and "poms_inv st \<Longrightarrow> poms_inv st'"
proof -
  have "length (heap_poms st) \<le> length (heap_poms st') \<and>
      (registered st t pt = Some q \<longrightarrow> registered st' t pt = Some q) \<and>
      (refs_inv st \<longrightarrow> refs_inv st') \<and> (slot_inv st \<longrightarrow> slot_inv st') \<and>
      (poms_inv st \<longrightarrow> poms_inv st')"
    using assms
  proof (induction as arbitrary: st)
    case Nil
    then show ?case by simp
  next
    case (Cons a as)
    from Cons.prems obtain s1 where en: "enabled a st" and s: "step a st = Done s1"
      and r: "run as s1 = Some st'"
      by (auto split: if_splits outcome.splits)
    from step_facts(1) [OF en s] step_facts(2) [OF en s, of t pt q] step_facts(3-5) [OF en s]
      Cons.IH [OF r]
    show ?case by auto
  qed
  then show "length (heap_poms st) \<le> length (heap_poms st')"
    and "registered st t pt = Some q \<Longrightarrow> registered st' t pt = Some q"
    and "refs_inv st \<Longrightarrow> refs_inv st'"
    and "slot_inv st \<Longrightarrow> slot_inv st'"
    and "poms_inv st \<Longrightarrow> poms_inv st'"
    by simp_all
qed

lemma NewOffsetManagerFromClient_invariants:
  assumes "NewOffsetManagerFromClient c = Inr st0"
  shows "refs_inv st0" and "slot_inv st0" and "poms_inv st0"
  using assms
  by (auto simp: NewOffsetManagerFromClient_def refs_inv_def slot_inv_def poms_inv_def
        registered_def split: if_splits)

lemma refBrokerOffsetManager_counts:
  assumes "refs_inv st" and "refBrokerOffsetManager broker st = (st', bom)"
  shows "om_boms st' broker = Some bom \<and>
         bom_refs (the_bom st' bom) =
           (case om_boms st broker of None \<Rightarrow> 1 | Some b \<Rightarrow> bom_refs (the_bom st b) + 1) \<and>
         (case om_boms st broker of
            None \<Rightarrow> bom = length (heap_boms st) \<and> length (heap_boms st') = Suc (length (heap_boms st))
          | Some b \<Rightarrow> bom = b \<and> length (heap_boms st') = length (heap_boms st))"
proof (cases "om_boms st broker")
  case None
  from assms(2) [unfolded refBrokerOffsetManager_new [OF None]] None show ?thesis
    by (auto simp: the_bom_def)
next
  case (Some b)
  have b: "b < length (heap_boms st)" by (rule refs_invD(2) [OF assms(1) Some])
  from assms(2) [unfolded refBrokerOffsetManager_existing [OF Some b]] Some b show ?thesis
    by (auto simp: heap_simps)
qed

section \<open>The operations of the registry return\<close>

lemma open_invD:
  assumes "open_inv st"
  shows "om_boms st broker = Some bom \<Longrightarrow> bom_broker (the_bom st bom) = broker"
    and "om_boms st broker = Some bom \<Longrightarrow> \<not> bom_closed (the_bom st bom)"
    and "bom < length (heap_boms st) \<Longrightarrow> bom_closed (the_bom st bom) \<Longrightarrow>
           bom_refs (the_bom st bom) = 0"
  using assms unfolding open_inv_def by blast+

lemma links_kept_open_inv:
  assumes "links_kept st st'" and "open_inv st"
  shows "open_inv st'"
  unfolding open_inv_def
proof (rule conjI; intro allI impI)
  fix broker bom assume "om_boms st' broker = Some bom"
  then have "om_boms st broker = Some bom" using assms(1) by (simp add: links_kept_def)
  from open_invD(1,2) [OF assms(2) this]
  show "bom_broker (the_bom st' bom) = broker \<and> \<not> bom_closed (the_bom st' bom)"
    using assms(1) by (simp add: links_kept_def)
next
  fix bom assume "bom < length (heap_boms st')" "bom_closed (the_bom st' bom)"
  then have "bom < length (heap_boms st)" "bom_closed (the_bom st bom)"
    using assms(1) by (simp_all add: links_kept_def)
  from open_invD(3) [OF assms(2) this]
  show "bom_refs (the_bom st' bom) = 0"
    using assms(1) by (simp add: links_kept_def)
qed

lemma open_inv_heap_poms: "open_inv (st\<lparr>heap_poms := X\<rparr>) = open_inv st"
  by (simp add: open_inv_def the_bom_def)

lemma open_inv_om_poms: "open_inv (st\<lparr>om_poms := X\<rparr>) = open_inv st"
  by (simp add: open_inv_def the_bom_def)

lemma open_inv_upd_pom: "open_inv (upd_pom p f st) = open_inv st"
  by (simp add: open_inv_def heap_simps)

text \<open>A partition manager points at a broker manager with a reference and an open channel.\<close>

lemma pointed_bom_open:
  assumes inv: "refs_inv st" and op: "open_inv st" and p: "p < length (heap_poms st)"
    and pb: "pom_broker (the_pom st p) = Some b"
  shows "b < length (heap_boms st)" and "0 < bom_refs (the_bom st b)"
    and "\<not> bom_closed (the_bom st b)"
proof -
  show b: "b < length (heap_boms st)" by (rule refs_invD(1) [OF inv p pb])
  have "heap_poms st ! p \<in> set (filter (\<lambda>m. pom_broker m = Some b) (heap_poms st))"
    using p pb by (simp add: the_pom_def)
  then have "0 < pointing st b"
    unfolding pointing_def by (metis length_pos_if_in_set)
  then show r: "0 < bom_refs (the_bom st b)"
    using refs_invD(3) [OF inv b] by simp
  show "\<not> bom_closed (the_bom st b)"
    using open_invD(3) [OF op b] r by auto
qed

lemma unref_returns_open_inv:
  assumes op: "open_inv st" and b: "b < length (heap_boms st)"
    and nc: "\<not> bom_closed (the_bom st b)"
  shows "\<exists>st'. unrefBrokerOffsetManager b st = Done st' \<and> open_inv st'"
proof -
  have "\<exists>st'. unrefBrokerOffsetManager b st = Done st'"
    using nc b
    by (cases "bom_refs (the_bom st b) = 1")
       (simp_all add: unrefBrokerOffsetManager_def Let_def heap_simps)
  then obtain st' where u: "unrefBrokerOffsetManager b st = Done st'" ..
  note f = unrefBrokerOffsetManager_Done [OF u b]
  have "open_inv st'"
    unfolding open_inv_def
  proof (rule conjI; intro allI impI)
    fix broker bom assume a: "om_boms st' broker = Some bom"
    then have old: "om_boms st broker = Some bom"
      using f(10) by (auto split: if_splits)
    have nb: "bom \<noteq> b \<or> bom_refs (the_bom st b) \<noteq> 1"
    proof (rule ccontr)
      assume "\<not> (bom \<noteq> b \<or> bom_refs (the_bom st b) \<noteq> 1)"
      then have e: "bom = b" "bom_refs (the_bom st b) = 1" by simp_all
      with old open_invD(1) [OF op old] have "broker = bom_broker (the_bom st b)"
        and "om_boms st (bom_broker (the_bom st b)) = Some b" by simp_all
      with e f(10) a show False by simp
    qed
    show "bom_broker (the_bom st' bom) = broker \<and> \<not> bom_closed (the_bom st' bom)"
      using open_invD(1,2) [OF op old] f(8) [of bom] f(9) [of bom] nb by auto
  next
    fix bom assume "bom < length (heap_boms st')" "bom_closed (the_bom st' bom)"
    then show "bom_refs (the_bom st' bom) = 0"
      using f(2) f(7) [of bom] f(9) [of bom] nc open_invD(3) [OF op, of bom]
      by (auto split: if_splits)
  qed
  with u show ?thesis by blast
qed

lemma selectBroker_release_returns:
  assumes inv: "refs_inv st" and op: "open_inv st" and p: "p < length (heap_poms st)"
  shows "\<exists>st1. selectBroker_release p st = Done st1 \<and> open_inv st1"
proof (cases "pom_broker (the_pom st p)")
  case None
  with op show ?thesis by (simp add: selectBroker_release_def)
next
  case (Some b)
  from unref_returns_open_inv [OF op pointed_bom_open(1,3) [OF inv op p Some]]
  obtain s1 where "unrefBrokerOffsetManager b st = Done s1" "open_inv s1" by blast
  with Some show ?thesis by (simp add: selectBroker_release_def open_inv_upd_pom)
qed

lemma selectBroker_attach_returns:
  assumes inv: "refs_inv st" and op: "open_inv st"
  shows "\<exists>st'. selectBroker_attach p broker st = Done (st', None) \<and> open_inv st' \<and>
               (p < length (heap_poms st) \<longrightarrow> pom_broker (the_pom st' p) \<noteq> None)"
proof (cases "om_boms st broker")
  case None
  let ?n = "length (heap_boms st)"
  let ?st3 = "upd_pom p (\<lambda>m. m\<lparr>pom_broker := Some ?n\<rparr>)
                (st\<lparr>heap_boms := heap_boms st @
                  [\<lparr>bom_broker = broker, bom_timer = True, bom_newSubscriptions = [],
                    bom_closed = False, bom_subscriptions = [], bom_refs = 1\<rparr>],
                 om_boms := (om_boms st)(broker \<mapsto> ?n)\<rparr>)"
  let ?st4 = "upd_bom ?n (\<lambda>m. m\<lparr>bom_newSubscriptions := bom_newSubscriptions m @ [p]\<rparr>) ?st3"
  have new: "the_bom ?st3 ?n = \<lparr>bom_broker = broker, bom_timer = True, bom_newSubscriptions = [],
                    bom_closed = False, bom_subscriptions = [], bom_refs = 1\<rparr>"
    by (simp add: heap_simps the_bom_def)
  have old: "c < ?n \<Longrightarrow> the_bom ?st3 c = the_bom st c" for c
    by (simp add: heap_simps the_bom_def nth_append)
  have a: "selectBroker_attach p broker st = Done (?st4, None)"
    by (simp add: selectBroker_attach_def refBrokerOffsetManager_new [OF None]
        send_newSubscriptions_def new)
  have op3: "open_inv ?st3"
    unfolding open_inv_def
  proof (rule conjI; intro allI impI)
    fix br c assume "om_boms ?st3 br = Some c"
    then have "(br = broker \<and> c = ?n) \<or> (om_boms st br = Some c)"
      by (auto simp: heap_simps split: if_splits)
    then show "bom_broker (the_bom ?st3 c) = br \<and> \<not> bom_closed (the_bom ?st3 c)"
    proof
      assume "br = broker \<and> c = ?n" then show ?thesis using new by simp
    next
      assume o: "om_boms st br = Some c"
      from refs_invD(2) [OF inv o] open_invD(1,2) [OF op o] show ?thesis by (simp add: old)
    qed
  next
    fix c assume "c < length (heap_boms ?st3)" "bom_closed (the_bom ?st3 c)"
    then have "c < ?n \<and> bom_closed (the_bom st c)"
      by (cases "c = ?n") (auto simp: heap_simps the_bom_def nth_append less_Suc_eq)
    then show "bom_refs (the_bom ?st3 c) = 0"
      using open_invD(3) [OF op, of c] by (simp add: old)
  qed
  have "links_kept ?st3 ?st4"
    by (simp add: links_kept_def heap_simps)
  from links_kept_open_inv [OF this op3] have "open_inv ?st4" .
  moreover have "p < length (heap_poms st) \<longrightarrow> pom_broker (the_pom ?st4 p) \<noteq> None"
    by (simp add: heap_simps)
  ultimately show ?thesis using a by blast
next
  case (Some b)
  have b: "b < length (heap_boms st)" by (rule refs_invD(2) [OF inv Some])
  have nc: "\<not> bom_closed (the_bom st b)" by (rule open_invD(2) [OF op Some])
  let ?st3 = "upd_pom p (\<lambda>m. m\<lparr>pom_broker := Some b\<rparr>)
                (upd_bom b (\<lambda>m. m\<lparr>bom_refs := bom_refs m + 1\<rparr>) st)"
  let ?st4 = "upd_bom b (\<lambda>m. m\<lparr>bom_newSubscriptions := bom_newSubscriptions m @ [p]\<rparr>) ?st3"
  have a: "selectBroker_attach p broker st = Done (?st4, None)"
    using nc b
    by (simp add: selectBroker_attach_def refBrokerOffsetManager_existing [OF Some b]
        send_newSubscriptions_def heap_simps)
  have op3: "open_inv ?st3"
    unfolding open_inv_def
  proof (rule conjI; intro allI impI)
    fix br c assume "om_boms ?st3 br = Some c"
    then have o: "om_boms st br = Some c" by (simp add: heap_simps)
    from open_invD(1,2) [OF op o]
    show "bom_broker (the_bom ?st3 c) = br \<and> \<not> bom_closed (the_bom ?st3 c)"
      by (auto simp: heap_simps)
  next
    fix c assume "c < length (heap_boms ?st3)" "bom_closed (the_bom ?st3 c)"
    then have "c < length (heap_boms st) \<and> bom_closed (the_bom st c) \<and> c \<noteq> b"
      using nc by (auto simp: heap_simps split: if_splits)
    then show "bom_refs (the_bom ?st3 c) = 0"
      using open_invD(3) [OF op, of c] by (simp add: heap_simps)
  qed
  have "links_kept ?st3 ?st4"
    by (simp add: links_kept_def heap_simps)
  from links_kept_open_inv [OF this op3] have "open_inv ?st4" .
  moreover have "p < length (heap_poms st) \<longrightarrow> pom_broker (the_pom ?st4 p) \<noteq> None"
    by (simp add: heap_simps)
  ultimately show ?thesis using a by blast
qed


text \<open>
  In a state with both invariants selectBroker returns: neither the release nor the
  attachment panics.
\<close>

lemma selectBroker_returns:
  assumes inv: "refs_inv st" and op: "open_inv st" and p: "p < length (heap_poms st)"
  shows "\<exists>st' e. selectBroker p st = Done (st', e) \<and> open_inv st' \<and>
                 (e = None \<longrightarrow> pom_broker (the_pom st' p) \<noteq> None)"
proof -
  from selectBroker_release_returns [OF inv op p] obtain st1 where
    r: "selectBroker_release p st = Done st1" and op1: "open_inv st1" by blast
  have inv1: "refs_inv st1" by (rule selectBroker_release_refs_inv [OF inv p r])
  have p1: "p < length (heap_poms st1)" using selectBroker_release_Done(1) [OF r] p by simp
  show ?thesis
  proof (cases "RefreshCoordinator (om_client st1) (om_group st1)")
    case (Some err)
    with r op1 show ?thesis by (simp add: selectBroker_def)
  next
    case None
    show ?thesis
    proof (cases "Coordinator (om_client st1) (om_group st1)")
      case (Inl err)
      with r op1 None show ?thesis by (simp add: selectBroker_def)
    next
      case (Inr broker)
      from selectBroker_attach_returns [OF inv1 op1, of p broker] p1 obtain st' where
        "selectBroker_attach p broker st1 = Done (st', None)" "open_inv st'"
        "pom_broker (the_pom st' p) \<noteq> None" by blast
      with r None Inr show ?thesis by (simp add: selectBroker_def)
    qed
  qed
qed

lemma selectBroker_open_inv:
  assumes "refs_inv st" and "open_inv st" and "p < length (heap_poms st)"
    and "selectBroker p st = Done (st', e)"
  shows "open_inv st'"
  using selectBroker_returns [OF assms(1-3)] assms(4) by auto

lemma fetchInitialOffset_returns:
  assumes "pom_broker (the_pom st p) \<noteq> None"
    and "\<forall>b req. FetchOffset (om_client st) b req \<noteq> (None, None)"
  shows "\<exists>st' e. fetchInitialOffset p st = Done (st', e)"
proof -
  from assms(1) obtain bom where b: "pom_broker (the_pom st p) = Some bom" by auto
  let ?req = "AddPartition (pom_topic (the_pom st p)) (pom_partition (the_pom st p))
                \<lparr>Version = 1, ConsumerGroup = om_group st, fetch_partitions = []\<rparr>"
  obtain response err where f: "FetchOffset (om_client st) (bom_broker (the_bom st bom)) ?req = (response, err)"
    by (cases "FetchOffset (om_client st) (bom_broker (the_bom st bom)) ?req")
  show ?thesis
  proof (cases err)
    case (Some e)
    with b f show ?thesis by (simp add: fetchInitialOffset_def)
  next
    case None
    with f assms(2) obtain r where r: "response = Some r" by (cases response) auto
    show ?thesis
    proof (cases "GetBlock r (pom_topic (the_pom st p)) (pom_partition (the_pom st p))")
      case None
      with b f r \<open>err = None\<close> show ?thesis by (simp add: fetchInitialOffset_def)
    next
      case (Some block)
      with b f r \<open>err = None\<close> show ?thesis
        by (cases "block_Err block") (simp_all add: fetchInitialOffset_def)
    qed
  qed
qed

lemma newPartitionOffsetManager_returns:
  assumes inv: "refs_inv st" and op: "open_inv st"
    and env: "\<forall>b req. FetchOffset (om_client st) b req \<noteq> (None, None)"
  shows "\<exists>st' r. newPartitionOffsetManager topic partn st = Done (st', r) \<and> open_inv st'"
proof -
  let ?p = "length (heap_poms st)"
  let ?new = "\<lparr>pom_topic = topic, pom_partition = partn, pom_offset = 0, pom_metadata = [],
                pom_broker = None,
                pom_errors = make_chan (ChannelBufferSize (om_conf st)),
                pom_rebalance = make_chan 1\<rparr>"
  let ?st0 = "st\<lparr>heap_poms := heap_poms st @ [?new]\<rparr>"
  have inv0: "refs_inv ?st0" by (rule alloc_refs_inv [OF inv]) simp
  have op0: "open_inv ?st0" using op by (simp add: open_inv_heap_poms)
  have p0: "?p < length (heap_poms ?st0)" by simp
  from selectBroker_returns [OF inv0 op0 p0] obtain st1 e1 where
    s: "selectBroker ?p ?st0 = Done (st1, e1)" and op1: "open_inv st1"
    and b1: "e1 = None \<longrightarrow> pom_broker (the_pom st1 ?p) \<noteq> None" by blast
  show ?thesis
  proof (cases e1)
    case (Some e)
    with s op1 show ?thesis by (simp add: newPartitionOffsetManager_def Let_def)
  next
    case None
    have "om_client st1 = om_client st" using selectBroker_pom_fields(5) [OF s] by simp
    with env have env1: "\<forall>b req. FetchOffset (om_client st1) b req \<noteq> (None, None)" by simp
    from fetchInitialOffset_returns [OF _ env1, of ?p] b1 None obtain st2 e2 where
      f: "fetchInitialOffset ?p st1 = Done (st2, e2)" by blast
    have "open_inv st2"
      by (rule links_kept_open_inv [OF fetchInitialOffset_links_kept [OF f] op1])
    with s None f show ?thesis
      by (cases e2) (simp_all add: newPartitionOffsetManager_def Let_def)
  qed
qed

lemma ManagePartition_returns:
  assumes inv: "refs_inv st" and op: "open_inv st"
    and env: "\<forall>b req. FetchOffset (om_client st) b req \<noteq> (None, None)"
  shows "\<exists>st' r. ManagePartition topic partn st = Done (st', r)"
proof -
  from newPartitionOffsetManager_returns [OF inv op env] obtain st1 r1 where
    n: "newPartitionOffsetManager topic partn st = Done (st1, r1)" by blast
  show ?thesis
  proof (cases r1)
    case (Inl e)
    with n show ?thesis by (simp add: ManagePartition_def)
  next
    case (Inr pom)
    obtain st' r where "ManagePartition_register topic partn pom st1 = (st', r)"
      by (cases "ManagePartition_register topic partn pom st1")
    with n Inr show ?thesis by (simp add: ManagePartition_def)
  qed
qed

lemma newPartitionOffsetManager_open_inv:
  assumes "refs_inv st" and "open_inv st"
    and "newPartitionOffsetManager topic partn st = Done (st', r)"
  shows "open_inv st'"
proof -
  let ?p = "length (heap_poms st)"
  from newPartitionOffsetManager_Done [OF assms(3)] obtain st1 e1 where
    s: "selectBroker ?p
             (st\<lparr>heap_poms := heap_poms st @
                  [\<lparr>pom_topic = topic, pom_partition = partn, pom_offset = 0, pom_metadata = [],
                    pom_broker = None,
                    pom_errors = make_chan (ChannelBufferSize (om_conf st)),
                    pom_rebalance = make_chan 1\<rparr>]\<rparr>) = Done (st1, e1)"
    and rest: "(\<exists>e. e1 = Some e \<and> st' = st1 \<and> r = Inl e) \<or>
            (e1 = None \<and>
             (\<exists>e2. fetchInitialOffset ?p st1 = Done (st', e2) \<and>
                   r = (case e2 of Some e \<Rightarrow> Inl e | None \<Rightarrow> Inr ?p)))"
    by blast
  have "open_inv st1"
    by (rule selectBroker_open_inv [OF alloc_refs_inv [OF assms(1)] _ _ s])
       (simp_all add: open_inv_heap_poms assms(2))
  with rest show ?thesis
    using fetchInitialOffset_links_kept links_kept_open_inv by blast
qed

lemma ManagePartition_open_inv:
  assumes "refs_inv st" and "open_inv st"
    and "ManagePartition topic partn st = Done (st', r)"
  shows "open_inv st'"
proof -
  from ManagePartition_cases [OF assms(3)] obtain st1 r1 where
    n: "newPartitionOffsetManager topic partn st = Done (st1, r1)"
    and D0: "(\<exists>e. r1 = Inl e \<and> r = Inl e \<and> st' = st1) \<or>
      (\<exists>pom. r1 = Inr pom \<and> registered st1 topic partn \<noteq> None \<and>
             r = Inl (ConfigurationError ''That topic/partition is already being managed'') \<and>
             st' = st1) \<or>
      (\<exists>pom X. r1 = Inr pom \<and> registered st1 topic partn = None \<and> r = Inr pom \<and>
             st' = st1\<lparr>om_poms := X\<rparr> \<and>
             (\<forall>t pt. registered st' t pt =
                      (if t = topic \<and> pt = partn then Some pom else registered st1 t pt)))"
    by (elim exE conjE)
  from D0 have D: "st' = st1 \<or> (\<exists>X. st' = st1\<lparr>om_poms := X\<rparr>)"
    by (elim disjE exE conjE) (simp, simp, rule disjI2, rule exI)
  have "open_inv st1" by (rule newPartitionOffsetManager_open_inv [OF assms(1,2) n])
  with D show ?thesis by (elim disjE exE) (simp_all add: open_inv_om_poms)
qed

lemma pom_mainLoop_open_inv:
  assumes "refs_inv st" and "open_inv st" and p: "p < length (heap_poms st)"
    and "pom_mainLoop p st = Done st'"
  shows "open_inv st'"
proof -
  from pom_mainLoop_Done [OF assms(4)] obtain c st1 err where
    r: "chan_recv (pom_rebalance (the_pom st p)) = Some ((), c)"
    and s: "selectBroker p (upd_pom p (\<lambda>m. m\<lparr>pom_rebalance := c\<rparr>) st) = Done (st1, err)"
    and rest: "(err = None \<and> st' = st1) \<or>
            (\<exists>e s2. err = Some e \<and> handleError p e st1 = Done s2 \<and> send_rebalance p s2 = Done st')"
    by (elim exE conjE)
  let ?sr = "upd_pom p (\<lambda>m. m\<lparr>pom_rebalance := c\<rparr>) st"
  have k0: "links_kept st ?sr" by (rule recv_links_kept [OF r])
  have pr: "p < length (heap_poms ?sr)" using p by (simp add: heap_simps)
  have op1: "open_inv st1"
    by (rule selectBroker_open_inv [OF links_kept_refs_inv [OF k0 assms(1)]
          links_kept_open_inv [OF k0 assms(2)] pr s])
  from rest show ?thesis
  proof (elim disjE exE conjE)
    assume "st' = st1" with op1 show ?thesis by simp
  next
    fix e s2 assume "handleError p e st1 = Done s2" "send_rebalance p s2 = Done st'"
    with op1 show ?thesis
      using handleError_links_kept send_rebalance_links_kept links_kept_open_inv by blast
  qed
qed

lemma step_open_inv:
  assumes "enabled a st" and "step a st = Done st'" and "refs_inv st" and "open_inv st"
  shows "open_inv st'"
proof (cases a)
  case (DoManagePartition topic partn)
  with assms(2) obtain r where "ManagePartition topic partn st = Done (st', r)"
    by (auto simp: obind_Done)
  from ManagePartition_open_inv [OF assms(3,4) this] show ?thesis .
next
  case (DoSetOffset p v)
  with assms(2,4) links_kept_open_inv [OF SetOffset_links_kept [of st p v]] show ?thesis by auto
next
  case (DoSetMetadata p v)
  with assms(2,4) links_kept_open_inv [OF SetMetadata_links_kept [of st p v]] show ?thesis by auto
next
  case (DoClose p)
  with assms(2,4) show ?thesis by (auto simp: Close_def AsyncClose_def)
next
  case (PomLoop p)
  with assms(1,2) have "pom_mainLoop p st = Done st'" "p < length (heap_poms st)" by simp_all
  from pom_mainLoop_open_inv [OF assms(3,4) this(2,1)] show ?thesis .
next
  case (BomLoop b c)
  with assms(2) obtain go_on where "bom_mainLoop b c st = Done (st', go_on)"
    by (auto simp: obind_Done)
  from links_kept_open_inv [OF bom_mainLoop_links_kept [OF this] assms(4)] show ?thesis .
next
  case (Environment c)
  with assms(2,4) links_kept_open_inv [OF Environment_links_kept [of st c]] show ?thesis by auto
qed

lemma run_open_inv:
  "run as st = Some st' \<Longrightarrow> refs_inv st \<Longrightarrow> open_inv st \<Longrightarrow> open_inv st'"
proof (induction as arbitrary: st)
  case Nil
  then show ?case by simp
next
  case (Cons a as)
  from Cons.prems(1) obtain s1 where en: "enabled a st" and s: "step a st = Done s1"
    and r: "run as s1 = Some st'"
    by (auto split: if_splits outcome.splits)
  from Cons.IH [OF r step_facts(3) [OF en s Cons.prems(2)] step_open_inv [OF en s Cons.prems(2,3)]]
  show ?case .
qed

lemma NewOffsetManagerFromClient_open_inv:
  "NewOffsetManagerFromClient c = Inr st0 \<Longrightarrow> open_inv st0"
  by (auto simp: NewOffsetManagerFromClient_def open_inv_def split: if_splits)

section \<open>Example runs\<close>

lemma example_runs:
  "NewOffsetManagerFromClient example_client = Inr example_om"
  "run [DoManagePartition ''orders'' 0, DoManagePartition ''orders'' 1] example_om = Some example_shared"
  "run [DoManagePartition ''orders'' 0, BomLoop 0 NewSubscription] example_om = Some example_managed"
  "run [DoManagePartition ''orders'' 0, BomLoop 0 NewSubscription,
        Environment example_not_leader_client, BomLoop 0 TimerTick, Environment example_client]
     example_om = Some example_signalled"
  by (simp_all add: NewOffsetManagerFromClient_def example_shared_def example_signalled_def
        example_not_leader_client_def example_defs pom_defs heap_defs bom_defs)

section \<open>Offsets in the commit request\<close>

lemma AddBlock_apply:
  "AddBlock topic partn offset timestamp metadata r k =
     (if k = (topic, partn)
      then Some \<lparr>commit_offset = offset, commit_timestamp = timestamp, commit_metadata = metadata\<rparr>
      else r k)"
  by (simp add: AddBlock_def)

text \<open>A pair that no manager in the list has keeps the block the request held for it.\<close>

lemma constructRequest_loop_other:
  "\<forall>s \<in> set ss. (pom_topic (the_pom st s), pom_partition (the_pom st s)) \<noteq> k \<Longrightarrow>
   constructRequest_loop st ss r k = r k"
  by (induction ss arbitrary: r) (auto simp: AddBlock_apply)

text \<open>The pair of a manager that alone in the list has it gets that manager's block.\<close>

lemma constructRequest_loop_unique:
  assumes "p \<in> set ss"
    and "\<forall>q \<in> set ss. pom_topic (the_pom st q) = pom_topic (the_pom st p) \<and>
                       pom_partition (the_pom st q) = pom_partition (the_pom st p) \<longrightarrow> q = p"
  shows "constructRequest_loop st ss r (pom_topic (the_pom st p), pom_partition (the_pom st p)) =
           Some \<lparr>commit_offset = pom_offset (the_pom st p), commit_timestamp = 0,
                 commit_metadata = pom_metadata (the_pom st p)\<rparr>"
  using assms
proof (induction ss arbitrary: r)
  case Nil
  then show ?case by simp
next
  case (Cons s ss)
  let ?k = "(pom_topic (the_pom st p), pom_partition (the_pom st p))"
  let ?r = "AddBlock (pom_topic (the_pom st s)) (pom_partition (the_pom st s))
              (pom_offset (the_pom st s)) 0 (pom_metadata (the_pom st s)) r"
  have uniq: "\<forall>q \<in> set ss. pom_topic (the_pom st q) = pom_topic (the_pom st p) \<and>
                       pom_partition (the_pom st q) = pom_partition (the_pom st p) \<longrightarrow> q = p"
    using Cons.prems(2) by simp
  show ?case
  proof (cases "p \<in> set ss")
    case True
    from Cons.IH [OF True uniq, of ?r] show ?thesis by simp
  next
    case False
    with Cons.prems(1) have s: "s = p" by simp
    have "\<forall>q \<in> set ss. (pom_topic (the_pom st q), pom_partition (the_pom st q)) \<noteq> ?k"
      using uniq False by auto
    from constructRequest_loop_other [OF this, of ?r] show ?thesis
      by (simp add: s AddBlock_apply)
  qed
qed

lemma SetOffset_twice: "SetOffset p x (SetOffset p v st) = SetOffset p x st"
  by (cases "p < length (heap_poms st)") (simp_all add: SetOffset_def upd_pom_def list_update_beyond)

lemma foldl_SetOffset_last:
  "foldl (\<lambda>s v. SetOffset p v s) st (vs @ [x]) = SetOffset p x st"
  by (induction vs arbitrary: st) (simp_all add: SetOffset_twice)

text \<open>The request of a flush is the one constructRequest builds in the state at its start.\<close>

lemma flushToBroker_answered:
  "flushToBroker b st =
     flush_answered b
       (CommitOffset (om_client st) (bom_broker (the_bom st b)) (constructRequest b st)) st"
  by (simp add: flushToBroker_def flush_answered_def Let_def)

text \<open>
  Claim C5, as the source has it. For a partition manager \<open>p\<close> and a value \<open>x\<close>:
  Offset() right after SetOffset(x) is \<open>x\<close>. Let \<open>p\<close> be subscribed to the broker manager
  \<open>b\<close> and let no other manager subscribed to \<open>b\<close> have \<open>p\<close>'s topic and partition. After
  any calls of SetOffset on \<open>p\<close> of which the last set \<open>x\<close>, a flush of \<open>b\<close> sends
  CommitOffset the request that constructRequest builds in that state and goes on from
  its answer, and this request holds for (topic, partition) of \<open>p\<close> the block with
  offset \<open>x\<close>, timestamp 0 and \<open>p\<close>'s metadata.
\<close>

theorem SetOffset_read_back_and_commit:
  assumes "p < length (heap_poms st)"
  shows "Offset p (SetOffset p x st) = x \<and>
         (p \<in> set (bom_subscriptions (the_bom st b)) \<and>
          (\<forall>q \<in> set (bom_subscriptions (the_bom st b)).
             pom_topic (the_pom st q) = pom_topic (the_pom st p) \<and>
             pom_partition (the_pom st q) = pom_partition (the_pom st p) \<longrightarrow> q = p) \<longrightarrow>
          flushToBroker b (after_SetOffsets p (vs @ [x]) st) =
            flush_answered b
              (CommitOffset (om_client st) (bom_broker (the_bom st b))
                 (constructRequest b (after_SetOffsets p (vs @ [x]) st)))
              (after_SetOffsets p (vs @ [x]) st) \<and>
          constructRequest b (after_SetOffsets p (vs @ [x]) st)
              (pom_topic (the_pom st p), pom_partition (the_pom st p)) =
            Some \<lparr>commit_offset = x, commit_timestamp = 0,
                  commit_metadata = pom_metadata (the_pom st p)\<rparr>)"
proof -
  let ?st = "SetOffset p x st"
  have last: "after_SetOffsets p (vs @ [x]) st = ?st"
    unfolding after_SetOffsets_def by (rule foldl_SetOffset_last)
  have pom: "the_pom ?st q = (if q = p then (the_pom st p)\<lparr>pom_offset := x\<rparr> else the_pom st q)" for q
    using assms by (simp add: SetOffset_def the_pom_upd_pom)
  have bom: "the_bom ?st b = the_bom st b"
    by (simp add: SetOffset_def the_bom_upd_pom)
  have client: "om_client ?st = om_client st"
    by (simp add: SetOffset_def upd_pom_def)
  have read: "Offset p ?st = x"
    by (simp add: Offset_def pom)
  have sent: "flushToBroker b ?st =
                flush_answered b
                  (CommitOffset (om_client st) (bom_broker (the_bom st b)) (constructRequest b ?st)) ?st"
    using flushToBroker_answered [of b ?st] by (simp add: bom client)
  have block: "constructRequest b ?st (pom_topic (the_pom st p), pom_partition (the_pom st p)) =
                 Some \<lparr>commit_offset = x, commit_timestamp = 0,
                       commit_metadata = pom_metadata (the_pom st p)\<rparr>"
    if sub: "p \<in> set (bom_subscriptions (the_bom st b))"
      and uniq: "\<forall>q \<in> set (bom_subscriptions (the_bom st b)).
                   pom_topic (the_pom st q) = pom_topic (the_pom st p) \<and>
                   pom_partition (the_pom st q) = pom_partition (the_pom st p) \<longrightarrow> q = p"
  proof -
    have uniq': "\<forall>q \<in> set (bom_subscriptions (the_bom st b)).
                   pom_topic (the_pom ?st q) = pom_topic (the_pom ?st p) \<and>
                   pom_partition (the_pom ?st q) = pom_partition (the_pom ?st p) \<longrightarrow> q = p"
      using uniq by (auto simp: pom)
    from constructRequest_loop_unique [OF sub uniq', of Map.empty]
    show ?thesis by (simp add: constructRequest_def bom pom)
  qed
  show ?thesis
    unfolding last using read sent block by simp
qed

theorem SetOffset_read_back_and_commit_witness:
  "Offset 0 (SetOffset 0 99 example_managed) = 99 \<and>
   bom_subscriptions (the_bom example_managed 0) = [0] \<and>
   flushToBroker 0 (after_SetOffsets 0 [50, 60, 99] example_managed) =
     flush_answered 0
       (CommitOffset example_client 7
          (constructRequest 0 (after_SetOffsets 0 [50, 60, 99] example_managed)))
       (after_SetOffsets 0 [50, 60, 99] example_managed) \<and>
   constructRequest 0 (after_SetOffsets 0 [50, 60, 99] example_managed) (''orders'', 0) =
     Some \<lparr>commit_offset = 99, commit_timestamp = 0, commit_metadata = ''m''\<rparr>"
proof -
  have h: "0 < length (heap_poms example_managed)"
    by (simp add: example_defs)
  have s: "bom_subscriptions (the_bom example_managed 0) = [0]"
    by (simp add: example_defs heap_defs)
  have p: "the_pom example_managed 0 = example_orders0"
    by (simp add: example_defs heap_defs)
  have c: "om_client example_managed = example_client" "bom_broker (the_bom example_managed 0) = 7"
    by (simp_all add: example_defs heap_defs)
  from SetOffset_read_back_and_commit [OF h, of 99 0 "[50, 60]"]
  show ?thesis
    by (simp add: s p c example_orders0_def)
qed

text \<open>
  The claim as the spec words it fails. A second \<open>ManagePartition("orders", 0)\<close> is
  refused, but the manager it constructed has attached itself to the broker manager
  and stays subscribed, with the offset 42 it fetched. After \<open>SetOffset(50)\<close> on the
  registered manager, Offset() is 50, and a flush that ranges over the subscriptions
  with the discarded manager last sends a request whose block for ("orders", 0)
  carries 42.
\<close>

theorem SetOffset_lost_after_refused_ManagePartition:
  "run [DoManagePartition ''orders'' 0, BomLoop 0 NewSubscription,
        DoManagePartition ''orders'' 0, BomLoop 0 NewSubscription, DoSetOffset 0 50]
     example_om = Some example_leaked \<and>
   registered example_leaked ''orders'' 0 = Some 0 \<and>
   Offset 0 example_leaked = 50 \<and>
   flushToBroker 0 example_leaked =
     flush_answered 0 (CommitOffset example_client 7 (constructRequest 0 example_leaked))
       example_leaked \<and>
   constructRequest 0 example_leaked (''orders'', 0) =
     Some \<lparr>commit_offset = 42, commit_timestamp = 0, commit_metadata = ''m''\<rparr> \<and>
   constructRequest 0 example_leaked (''orders'', 0) \<noteq>
     Some \<lparr>commit_offset = 50, commit_timestamp = 0, commit_metadata = ''m''\<rparr>"
proof -
  have "run [DoManagePartition ''orders'' 0, BomLoop 0 NewSubscription,
             DoManagePartition ''orders'' 0, BomLoop 0 NewSubscription, DoSetOffset 0 50]
          example_om = Some example_leaked"
    by (simp add: example_leaked_def SetOffset_def example_defs pom_defs heap_defs bom_defs)
  moreover have "registered example_leaked ''orders'' 0 = Some 0"
    by (simp add: registered_def example_leaked_def example_defs)
  moreover have "Offset 0 example_leaked = 50"
    by (simp add: Offset_def example_leaked_def example_defs heap_defs)
  moreover have "flushToBroker 0 example_leaked =
     flush_answered 0 (CommitOffset example_client 7 (constructRequest 0 example_leaked))
       example_leaked"
    by (simp add: flushToBroker_def flush_answered_def example_leaked_def example_defs heap_defs)
  moreover have "constructRequest 0 example_leaked (''orders'', 0) =
     Some \<lparr>commit_offset = 42, commit_timestamp = 0, commit_metadata = ''m''\<rparr>"
    by (simp add: constructRequest_def AddBlock_def example_leaked_def example_defs heap_defs)
  ultimately show ?thesis by simp
qed

section \<open>Reference counts of the broker managers\<close>

text \<open>
  Claim C4. In every state the system reaches from a new registry by returning
  actions, the reference count of every broker manager is the number of partition
  managers whose \<open>broker\<close> field points at it. In such a state
  refBrokerOffsetManager returns the manager registered for the broker, creating it
  at the next free address when there is none, and its count is one more than before
  (1 for a new manager); unrefBrokerOffsetManager, when it returns, has lowered the
  count by one, has closed the attach channel exactly when the count reached zero
  (the count was 1), and has removed the registry entry exactly when the count
  reached zero and the entry of the manager's broker was this manager; and it does
  return when called, as selectBroker calls it, on the broker manager that a
  partition manager points at.
\<close>

theorem reference_count_is_number_of_pointers:
  assumes "NewOffsetManagerFromClient c = Inr st0" and "run as st0 = Some st"
  shows "(\<forall>bom < length (heap_boms st). bom_refs (the_bom st bom) = int (pointing st bom)) \<and>
         (\<forall>broker st' bom. refBrokerOffsetManager broker st = (st', bom) \<longrightarrow>
            om_boms st' broker = Some bom \<and>
            bom_refs (the_bom st' bom) =
              (case om_boms st broker of None \<Rightarrow> 1 | Some b \<Rightarrow> bom_refs (the_bom st b) + 1) \<and>
            (case om_boms st broker of
               None \<Rightarrow> bom = length (heap_boms st) \<and>
                        length (heap_boms st') = Suc (length (heap_boms st))
             | Some b \<Rightarrow> bom = b \<and> length (heap_boms st') = length (heap_boms st))) \<and>
         (\<forall>bom < length (heap_boms st). \<forall>st'. unrefBrokerOffsetManager bom st = Done st' \<longrightarrow>
            bom_refs (the_bom st' bom) = bom_refs (the_bom st bom) - 1 \<and>
            bom_closed (the_bom st' bom) =
              (bom_closed (the_bom st bom) \<or> bom_refs (the_bom st bom) = 1) \<and>
            om_boms st' =
              (if bom_refs (the_bom st bom) = 1 \<and> om_boms st (bom_broker (the_bom st bom)) = Some bom
               then (om_boms st)(bom_broker (the_bom st bom) := None) else om_boms st)) \<and>
         (\<forall>p < length (heap_poms st). \<forall>bom. pom_broker (the_pom st p) = Some bom \<longrightarrow>
            (\<exists>st'. unrefBrokerOffsetManager bom st = Done st'))"
proof -
  have inv: "refs_inv st"
    using run_facts(3) [OF assms(2)] NewOffsetManagerFromClient_invariants(1) [OF assms(1)] .
  have 1: "\<forall>bom < length (heap_boms st). bom_refs (the_bom st bom) = int (pointing st bom)"
    using refs_invD(3) [OF inv] by blast
  have 2: "om_boms st' broker = Some bom \<and>
            bom_refs (the_bom st' bom) =
              (case om_boms st broker of None \<Rightarrow> 1 | Some b \<Rightarrow> bom_refs (the_bom st b) + 1) \<and>
            (case om_boms st broker of
               None \<Rightarrow> bom = length (heap_boms st) \<and>
                        length (heap_boms st') = Suc (length (heap_boms st))
             | Some b \<Rightarrow> bom = b \<and> length (heap_boms st') = length (heap_boms st))"
    if "refBrokerOffsetManager broker st = (st', bom)" for broker st' bom
    using refBrokerOffsetManager_counts [OF inv that] .
  have 3: "bom_refs (the_bom st' bom) = bom_refs (the_bom st bom) - 1 \<and>
            bom_closed (the_bom st' bom) =
              (bom_closed (the_bom st bom) \<or> bom_refs (the_bom st bom) = 1) \<and>
            om_boms st' =
              (if bom_refs (the_bom st bom) = 1 \<and> om_boms st (bom_broker (the_bom st bom)) = Some bom
               then (om_boms st)(bom_broker (the_bom st bom) := None) else om_boms st)"
    if "bom < length (heap_boms st)" and "unrefBrokerOffsetManager bom st = Done st'" for bom st'
    using unrefBrokerOffsetManager_Done(7,9) [OF that(2,1), of bom]
      unrefBrokerOffsetManager_Done(10) [OF that(2,1)] by simp
  have op: "open_inv st"
    using run_open_inv [OF assms(2)] NewOffsetManagerFromClient_invariants(1) [OF assms(1)]
      NewOffsetManagerFromClient_open_inv [OF assms(1)] .
  have 4: "\<exists>st'. unrefBrokerOffsetManager bom st = Done st'"
    if "p < length (heap_poms st)" and "pom_broker (the_pom st p) = Some bom" for p bom
    using unref_returns_open_inv [OF op pointed_bom_open(1,3) [OF inv op that]] by blast
  from 1 2 3 4 show ?thesis by blast
qed

text \<open>
  Scenario B: two partitions whose coordinator is broker 7 share broker manager 0,
  whose count is 2; releasing one reference leaves the count at 1, the attach channel
  open and the manager registered.
\<close>

theorem reference_count_is_number_of_pointers_witness:
  "run [DoManagePartition ''orders'' 0, DoManagePartition ''orders'' 1] example_om = Some example_shared \<and>
   pom_broker (the_pom example_shared 0) = Some 0 \<and>
   pom_broker (the_pom example_shared 1) = Some 0 \<and>
   bom_refs (the_bom example_shared 0) = 2 \<and> pointing example_shared 0 = 2 \<and>
   (\<exists>st'. unrefBrokerOffsetManager 0 example_shared = Done st' \<and>
          bom_refs (the_bom st' 0) = 1 \<and> \<not> bom_closed (the_bom st' 0) \<and> om_boms st' 7 = Some 0)"
proof -
  note main = reference_count_is_number_of_pointers [OF example_runs(1) example_runs(2)]
  have len: "0 < length (heap_boms example_shared)"
    by (simp add: example_shared_def example_defs)
  have p: "pointing example_shared 0 = 2"
    and b: "pom_broker (the_pom example_shared 0) = Some 0"
      "pom_broker (the_pom example_shared 1) = Some 0"
    by (simp_all add: pointing_def example_shared_def example_defs heap_defs)
  from main len have refs: "bom_refs (the_bom example_shared 0) = int (pointing example_shared 0)"
    by blast
  obtain st' where u: "unrefBrokerOffsetManager 0 example_shared = Done st'"
    by (simp add: unrefBrokerOffsetManager_def example_shared_def example_defs heap_defs)
  from main len u have
    "bom_refs (the_bom st' 0) = bom_refs (the_bom example_shared 0) - 1 \<and>
     bom_closed (the_bom st' 0) =
       (bom_closed (the_bom example_shared 0) \<or> bom_refs (the_bom example_shared 0) = 1) \<and>
     om_boms st' =
       (if bom_refs (the_bom example_shared 0) = 1 \<and>
           om_boms example_shared (bom_broker (the_bom example_shared 0)) = Some 0
        then (om_boms example_shared)(bom_broker (the_bom example_shared 0) := None)
        else om_boms example_shared)"
    by blast
  with refs p have "bom_refs (the_bom st' 0) = 1 \<and> \<not> bom_closed (the_bom st' 0) \<and>
      om_boms st' 7 = Some 0"
    by (simp add: example_shared_def example_defs heap_defs)
  with u refs p b example_runs(2) show ?thesis by auto
qed


section \<open>The rebalance signal slot\<close>




section \<open>Registration of partition managers\<close>

text \<open>
  ManagePartition for an occupied pair ends as the construction of the new manager
  ends, a constructed manager being replaced by the configuration error.
\<close>

lemma ManagePartition_occupied:
  assumes "registered st topic partn \<noteq> None"
  shows "ManagePartition topic partn st =
           (case newPartitionOffsetManager topic partn st of
              Done (s, x) \<Rightarrow>
                Done (s, Inl (case x of
                                Inl e \<Rightarrow> e
                              | Inr pom \<Rightarrow>
                                  ConfigurationError ''That topic/partition is already being managed''))
            | Blocked s \<Rightarrow> Blocked s
            | Panicked msg s \<Rightarrow> Panicked msg s)"
proof (cases "newPartitionOffsetManager topic partn st")
  case (Done y)
  obtain s x where y: "y = (s, x)" by (cases y)
  from Done y have n: "newPartitionOffsetManager topic partn st = Done (s, x)" by simp
  have "om_poms s = om_poms st" by (rule newPartitionOffsetManager_facts(2) [OF n])
  with assms have occ: "registered s topic partn \<noteq> None" by (simp add: registered_def)
  show ?thesis
  proof (cases x)
    case (Inl e)
    then show ?thesis by (simp add: ManagePartition_def n)
  next
    case (Inr pom)
    obtain st' r where reg: "ManagePartition_register topic partn pom s = (st', r)"
      by (cases "ManagePartition_register topic partn pom s")
    from ManagePartition_register_cases [OF reg] occ
    have "st' = s" and "r = Inl (ConfigurationError ''That topic/partition is already being managed'')"
      by (elim disjE conjE; simp)+
    with reg Inr show ?thesis by (simp add: ManagePartition_def n)
  qed
next
  case (Blocked s)
  then show ?thesis by (simp add: ManagePartition_def)
next
  case (Panicked msg s)
  then show ?thesis by (simp add: ManagePartition_def)
qed

text \<open>
  Claim C1, as the source has it. Take a state the system reaches from a new registry
  in which the pair (topic, partition) is registered to manager \<open>p0\<close>, and any further
  returning actions. Then every registered manager is registered under its own topic
  and partition, and the pair is still registered to \<open>p0\<close>. A call of ManagePartition
  for the pair then ends as the construction of the new manager ends: when
  newPartitionOffsetManager returns an error, the call returns that same error; when
  it returns a manager, the call returns the configuration error; when it does not
  return (it waits in selectBroker until the broker manager's task has received the
  new manager), neither does the call. In no case does the call return a manager.
  Every such call that returns leaves the mapping from pairs to managers and the state
  of \<open>p0\<close> unchanged, so the pair is registered to \<open>p0\<close> afterwards as before.
\<close>

theorem duplicate_ManagePartition_is_refused:
  assumes "NewOffsetManagerFromClient c = Inr st0" and "run as st0 = Some st"
    and "registered st topic partn = Some p0"
    and "run bs st = Some st1"
  shows "poms_inv st1 \<and> registered st1 topic partn = Some p0 \<and>
         ManagePartition topic partn st1 =
           (case newPartitionOffsetManager topic partn st1 of
              Done (s, x) \<Rightarrow>
                Done (s, Inl (case x of
                                Inl e \<Rightarrow> e
                              | Inr pom \<Rightarrow>
                                  ConfigurationError ''That topic/partition is already being managed''))
            | Blocked s \<Rightarrow> Blocked s
            | Panicked msg s \<Rightarrow> Panicked msg s) \<and>
         (\<forall>st2 r. ManagePartition topic partn st1 = Done (st2, r) \<longrightarrow>
            om_poms st2 = om_poms st1 \<and> the_pom st2 p0 = the_pom st1 p0 \<and>
            poms_inv st2 \<and> registered st2 topic partn = Some p0)"
proof -
  note init = NewOffsetManagerFromClient_invariants [OF assms(1)]
  have "poms_inv st" by (rule run_facts(5) [OF assms(2) init(3)])
  then have inv1: "poms_inv st1" by (rule run_facts(5) [OF assms(4)])
  have reg1: "registered st1 topic partn = Some p0"
    by (rule run_facts(2) [OF assms(4) assms(3)])
  then have occ: "registered st1 topic partn \<noteq> None" by simp
  have p0: "p0 < length (heap_poms st1)"
    using inv1 reg1 by (simp add: poms_inv_def)
  have kept: "om_poms st2 = om_poms st1 \<and> the_pom st2 p0 = the_pom st1 p0 \<and>
              poms_inv st2 \<and> registered st2 topic partn = Some p0"
    if m: "ManagePartition topic partn st1 = Done (st2, r)" for st2 r
  proof -
    note f = ManagePartition_facts [OF m]
    from f(7) [OF occ] have "om_poms st2 = om_poms st1" by (elim conjE)
    moreover have "the_pom st2 p0 = the_pom st1 p0" by (rule f(2) [OF p0])
    moreover have "poms_inv st2" by (rule f(5) [OF inv1])
    moreover have "registered st2 topic partn = Some p0" by (rule f(6) [OF reg1])
    ultimately show ?thesis by (intro conjI)
  qed
  then have all: "\<forall>st2 r. ManagePartition topic partn st1 = Done (st2, r) \<longrightarrow>
            om_poms st2 = om_poms st1 \<and> the_pom st2 p0 = the_pom st1 p0 \<and>
            poms_inv st2 \<and> registered st2 topic partn = Some p0"
    by (intro allI impI)
  show ?thesis
    by (rule conjI [OF inv1 conjI [OF reg1 conjI [OF ManagePartition_occupied [OF occ] all]]])
qed

theorem duplicate_ManagePartition_is_refused_witness:
  "registered (SetOffset 0 50 example_managed) ''orders'' 0 = Some 0 \<and>
   returned (newPartitionOffsetManager ''orders'' 0 (SetOffset 0 50 example_managed)) = Some (Inr 1) \<and>
   returned (ManagePartition ''orders'' 0 (SetOffset 0 50 example_managed)) =
     Some (Inl (ConfigurationError ''That topic/partition is already being managed'')) \<and>
   map_option om_poms (final_state (ManagePartition ''orders'' 0 (SetOffset 0 50 example_managed))) =
     Some (om_poms (SetOffset 0 50 example_managed)) \<and>
   map_option (\<lambda>s. the_pom s 0) (final_state (ManagePartition ''orders'' 0 (SetOffset 0 50 example_managed))) =
     Some (the_pom (SetOffset 0 50 example_managed) 0)"
proof -
  let ?st1 = "SetOffset 0 50 example_managed"
  have occ: "registered example_managed ''orders'' 0 = Some 0"
    by (simp add: registered_def example_defs)
  have later: "run [DoSetOffset 0 50] example_managed = Some ?st1"
    by (simp add: example_defs)
  have "\<exists>s. newPartitionOffsetManager ''orders'' 0 ?st1 = Done (s, Inr 1)"
    by (simp add: SetOffset_def example_defs pom_defs heap_defs)
  then obtain s where n: "newPartitionOffsetManager ''orders'' 0 ?st1 = Done (s, Inr 1)" ..
  note main = duplicate_ManagePartition_is_refused [OF example_runs(1) example_runs(3) occ later]
  from main have reg: "registered ?st1 ''orders'' 0 = Some 0" by (elim conjE)
  from main have
    "ManagePartition ''orders'' 0 ?st1 =
       (case newPartitionOffsetManager ''orders'' 0 ?st1 of
          Done (s, x) \<Rightarrow>
            Done (s, Inl (case x of
                            Inl e \<Rightarrow> e
                          | Inr pom \<Rightarrow>
                              ConfigurationError ''That topic/partition is already being managed''))
        | Blocked s \<Rightarrow> Blocked s
        | Panicked msg s \<Rightarrow> Panicked msg s)"
    by (elim conjE)
  with n have m: "ManagePartition ''orders'' 0 ?st1 =
                    Done (s, Inl (ConfigurationError ''That topic/partition is already being managed''))"
    by simp
  from main have
    "\<forall>st2 r. ManagePartition ''orders'' 0 ?st1 = Done (st2, r) \<longrightarrow>
        om_poms st2 = om_poms ?st1 \<and> the_pom st2 0 = the_pom ?st1 0 \<and>
        poms_inv st2 \<and> registered st2 ''orders'' 0 = Some 0"
    by (elim conjE)
  with m have "om_poms s = om_poms ?st1" and "the_pom s 0 = the_pom ?st1 0"
    by (elim allE impE; simp)+
  with reg n m show ?thesis by (simp add: returned_def final_state_def)
qed

text \<open>
  The claim as the spec words it fails: with ("orders", 0) registered and a client
  whose RefreshCoordinator fails, ManagePartition("orders", 0) returns that failure,
  not a configuration error.
\<close>

theorem duplicate_ManagePartition_other_error:
  "registered (example_managed\<lparr>om_client := example_refresh_fails_client\<rparr>) ''orders'' 0 = Some 0 \<and>
   returned (ManagePartition ''orders'' 0 (example_managed\<lparr>om_client := example_refresh_fails_client\<rparr>)) =
     Some (Inl (ErrExternal ''no coordinator'')) \<and>
   returned (ManagePartition ''orders'' 0 (example_managed\<lparr>om_client := example_refresh_fails_client\<rparr>)) \<noteq>
     Some (Inl (ConfigurationError ''That topic/partition is already being managed''))"
  by (simp add: registered_def returned_def example_refresh_fails_client_def example_defs
        pom_defs heap_defs)

end
